theory Spec2Isabelle
  imports Main "HOL-Library.AList"
begin

section \<open>Text\<close>


definition is_ws :: "char \<Rightarrow> bool" where
  "is_ws c \<longleftrightarrow> c \<in> {CHR 0x09, CHR 0x0A, CHR 0x0B, CHR 0x0C, CHR 0x0D, CHR 0x20, CHR 0xA0}"

definition trimStart :: "string \<Rightarrow> string" where
  "trimStart s = dropWhile is_ws s"

definition trimEnd :: "string \<Rightarrow> string" where
  "trimEnd s = rev (dropWhile is_ws (rev s))"

definition trim :: "string \<Rightarrow> string" where
  "trim s = trimEnd (trimStart s)"

definition startsWith :: "string \<Rightarrow> string \<Rightarrow> bool" where
  "startsWith s p \<longleftrightarrow> take (length p) s = p"

definition endsWith :: "string \<Rightarrow> string \<Rightarrow> bool" where
  "endsWith s p \<longleftrightarrow> length p \<le> length s \<and> drop (length s - length p) s = p"

text \<open>\<open>str.split('\n')\<close>, for any separator character: never empty, \<open>[""]\<close> for \<open>""\<close>.\<close>

fun split_on :: "char \<Rightarrow> string \<Rightarrow> string list" where
  "split_on d [] = [[]]"
| "split_on d (c # cs) =
     (if c = d then [] # split_on d cs
      else (c # hd (split_on d cs)) # tl (split_on d cs))"

text \<open>\<open>str.replace(pat, rep)\<close> with a string pattern: the first occurrence only.\<close>

fun replace_first :: "string \<Rightarrow> string \<Rightarrow> string \<Rightarrow> string" where
  "replace_first pat rep [] = (if pat = [] then rep else [])"
| "replace_first pat rep (c # cs) =
     (if startsWith (c # cs) pat then rep @ drop (length pat) (c # cs)
      else c # replace_first pat rep cs)"

text \<open>The number of bytes of a text in UTF-8: two for a code unit from 128 to 255.\<close>

definition utf8_length :: "string \<Rightarrow> nat" where
  "utf8_length s = sum_list (map (\<lambda>c. if (of_char c :: nat) < 128 then 1 else 2) s)"

text \<open>A number in a template literal: its decimal digits.\<close>

fun decimal :: "nat \<Rightarrow> string" where
  "decimal n =
     (if n < 10 then [''0123456789'' ! n]
      else decimal (n div 10) @ [''0123456789'' ! (n mod 10)])"

declare decimal.simps [simp del]

section \<open>The file system, the clock and the console\<close>

text \<open>
  \<open>config.js\<close> fixes two directories, \<open>sections/\<close> and \<open>backups/\<close>; a path is modelled by
  the directory and the file's name in it. A directory is \<open>None\<close> when it does not exist,
  and otherwise the list of its entries in the order \<open>readdirSync\<close> returns them.
  A section log and the metadata sidecar hold text (UTF-8, section 6 of the
  specification); a file of the backup directory holds text or the gzip stream of a text,
  and has a modification time.
\<close>

datatype dir = SectionsDir | BackupDir

datatype fs_call =
    Readdir dir | Mkdir dir
  | ReadFile dir string | WriteFile dir string | AppendFile dir string
  | Stat dir string | Unlink dir string

datatype fdata = Text string | Gz string

record bfile =
  b_data :: fdata
  b_mtime :: int

datatype effect =
    MadeDir dir | Wrote dir string | Appended dir string | Unlinked dir string

text \<open>
  What the program reads from \<open>backupData\<close>, the parsed payload of a full backup:
  \<open>metadata\<close> (\<open>None\<close> when absent or falsy) and \<open>sections\<close>, the entries in the order
  of \<open>Object.entries\<close>. The sidecar is an object from section id to \<open>{description}\<close>.
\<close>

type_synonym metadata = "(string \<times> string) list"

record backupData =
  bd_timestamp :: string
  bd_metadata :: "metadata option"
  bd_sections :: "(string \<times> string) list"

text \<open>
  The environment of a run, fixed while it lasts: which file system calls fail
  (\<open>faulty\<close>: permissions, a full disk), where a new directory entry appears in the
  enumeration order (\<open>slot\<close>, from the names present and the new name), the successive
  readings of the clock (\<open>clock\<close>), and the library functions of Node.js that the program
  calls and this development does not define: \<open>Date.prototype.toISOString\<close>,
  \<open>setDate(getDate() - n)\<close>, the text that a gzip stream reads as when decoded as UTF-8,
  and \<open>JSON.parse\<close> and \<open>JSON.stringify\<close> at the two types they are used at
  (\<open>None\<close> when \<open>JSON.parse\<close> throws).
\<close>

record env =
  faulty :: "fs_call \<Rightarrow> bool"
  slot :: "string list \<Rightarrow> string \<Rightarrow> nat"
  clock :: "nat \<Rightarrow> int"
  toISOString :: "int \<Rightarrow> string"
  minusDays :: "int \<Rightarrow> int \<Rightarrow> int"
  utf8_of_gz :: "string \<Rightarrow> string"
  JSON_parse_metadata :: "string \<Rightarrow> metadata option"
  JSON_stringify_metadata :: "metadata \<Rightarrow> string"
  JSON_parse_backup :: "string \<Rightarrow> backupData option"
  JSON_stringify_backup :: "backupData \<Rightarrow> string"

text \<open>
  What \<open>listAllBackups\<close> derives for one file of the backup directory. The path is the
  name in the backup directory; the size, which is only printed, is left out.
\<close>

datatype backup_type = Full | Section

record backup_record =
  br_path :: string
  br_name :: string
  br_date :: int
  br_type :: backup_type
  br_section :: "string option"

text \<open>
  A line of the console: of \<open>console.log\<close> or of \<open>console.error\<close>, without the colour.
  The line that \<open>listBackups\<close> prints for a backup, which renders a date and a size, is
  kept as the number it prints and the record it prints it for.
\<close>

datatype line =
    Out string | Err string
  | OutFullBackup nat backup_record | OutSectionBackup nat backup_record

record fs =
  sectionsDir :: "(string \<times> string) list option"
  backupDir :: "(string \<times> bfile) list option"
  ticks :: nat
  console :: "line list"
  effects :: "effect list"

definition console_log :: "line \<Rightarrow> fs \<Rightarrow> fs" where
  "console_log l s = s\<lparr>console := console s @ [l]\<rparr>"

definition new_Date :: "env \<Rightarrow> fs \<Rightarrow> int \<times> fs" where
  "new_Date E s = (clock E (ticks s), s\<lparr>ticks := Suc (ticks s)\<rparr>)"

text \<open>
  Writing an entry of a directory: an existing name keeps its place, a new name goes to
  the place the environment gives it.
\<close>

definition put :: "nat \<Rightarrow> string \<Rightarrow> 'v \<Rightarrow> (string \<times> 'v) list \<Rightarrow> (string \<times> 'v) list" where
  "put i n v d =
     (if n \<in> fst ` set d then AList.update n v d
      else take i d @ (n, v) # drop i d)"

text \<open>The content of a file of the sections directory, \<open>None\<close> when there is none.\<close>

definition file_s :: "fs \<Rightarrow> string \<Rightarrow> string option" where
  "file_s s n = (case sectionsDir s of None \<Rightarrow> None | Some d \<Rightarrow> map_of d n)"

definition existsSync_s :: "fs \<Rightarrow> string \<Rightarrow> bool" where
  "existsSync_s s n \<longleftrightarrow> file_s s n \<noteq> None"

definition readFileSync_s :: "env \<Rightarrow> fs \<Rightarrow> string \<Rightarrow> string option" where
  "readFileSync_s E s n = (if faulty E (ReadFile SectionsDir n) then None else file_s s n)"

definition writeFileSync_s :: "env \<Rightarrow> string \<Rightarrow> string \<Rightarrow> fs \<Rightarrow> fs option" where
  "writeFileSync_s E n c s =
     (if faulty E (WriteFile SectionsDir n) then None
      else case sectionsDir s of
        None \<Rightarrow> None
      | Some d \<Rightarrow>
          Some (s\<lparr>sectionsDir := Some (put (slot E (map fst d) n) n c d),
                  effects := effects s @ [Wrote SectionsDir n]\<rparr>))"

definition appendFileSync_s :: "env \<Rightarrow> string \<Rightarrow> string \<Rightarrow> fs \<Rightarrow> fs option" where
  "appendFileSync_s E n c s =
     (if faulty E (AppendFile SectionsDir n) then None
      else case sectionsDir s of
        None \<Rightarrow> None
      | Some d \<Rightarrow>
          Some (s\<lparr>sectionsDir :=
                    Some (put (slot E (map fst d) n) n
                      ((case file_s s n of None \<Rightarrow> [] | Some old \<Rightarrow> old) @ c) d),
                  effects := effects s @ [Appended SectionsDir n]\<rparr>))"

text \<open>\<open>fs.statSync(path).size\<close> of a file of the sections directory.\<close>

definition statSync_size_s :: "env \<Rightarrow> fs \<Rightarrow> string \<Rightarrow> nat option" where
  "statSync_size_s E s n =
     (if faulty E (Stat SectionsDir n) then None else map_option utf8_length (file_s s n))"

definition readdirSync_s :: "env \<Rightarrow> fs \<Rightarrow> string list option" where
  "readdirSync_s E s =
     (if faulty E (Readdir SectionsDir) then None
      else map_option (map fst) (sectionsDir s))"

text \<open>\<open>fs.mkdirSync(dir, { recursive: true })\<close>, called when the directory is missing.\<close>

definition mkdirSync_s :: "env \<Rightarrow> fs \<Rightarrow> fs option" where
  "mkdirSync_s E s =
     (if faulty E (Mkdir SectionsDir) then None
      else Some (s\<lparr>sectionsDir := Some [], effects := effects s @ [MadeDir SectionsDir]\<rparr>))"

section \<open>config.js\<close>

definition logRotationSize :: nat where
  "logRotationSize = 5 * 1024 * 1024"

definition metadataFile :: string where
  "metadataFile = ''metadata.json''"

section \<open>logger.js\<close>

definition getLogFilePath :: "string \<Rightarrow> string" where
  "getLogFilePath section = section @ ''.txt''"

definition getSectionMetadata :: "env \<Rightarrow> fs \<Rightarrow> fs \<times> metadata" where
  "getSectionMetadata E s =
     (if existsSync_s s metadataFile then
        (case readFileSync_s E s metadataFile of
           None \<Rightarrow> (console_log (Err ''Error loading section metadata:'') s, [])
         | Some data \<Rightarrow>
             (case JSON_parse_metadata E data of
                None \<Rightarrow> (console_log (Err ''Error loading section metadata:'') s, [])
              | Some m \<Rightarrow> (s, m)))
      else (s, []))"

definition saveSectionMetadata :: "env \<Rightarrow> metadata \<Rightarrow> fs \<Rightarrow> fs" where
  "saveSectionMetadata E m s =
     (case writeFileSync_s E metadataFile (JSON_stringify_metadata E m) s of
        None \<Rightarrow> console_log (Err ''Error saving section metadata:'') s
      | Some s' \<Rightarrow> s')"

definition getSections :: "env \<Rightarrow> fs \<Rightarrow> fs \<times> string list" where
  "getSections E s =
     (case readdirSync_s E s of
        None \<Rightarrow> (console_log (Err ''Error loading sections:'') s, [])
      | Some files \<Rightarrow>
          (s, map (replace_first ''.txt'' [])
                (filter (\<lambda>file. endsWith file ''.txt'' \<and> file \<noteq> ''metadata.json'') files)))"

text \<open>The character class \<open>[a-zA-Z0-9-_]\<close> of the sanitizer.\<close>

definition id_char :: "char \<Rightarrow> bool" where
  "id_char c \<longleftrightarrow>
     (let n = (of_char c :: nat) in
      (97 \<le> n \<and> n \<le> 122) \<or> (65 \<le> n \<and> n \<le> 90) \<or> (48 \<le> n \<and> n \<le> 57)
      \<or> c = CHR ''-'' \<or> c = CHR ''_'')"

definition sanitize :: "string \<Rightarrow> string" where
  "sanitize name = map (\<lambda>c. if id_char c then c else CHR ''_'') name"

text \<open>
  \<open>obj[k] = v\<close> on an object made by \<open>JSON.parse\<close> or \<open>{}\<close>, as far as its own
  enumerable properties go (what \<open>JSON.stringify\<close> and \<open>Object.entries\<close> see): the key
  \<open>__proto__\<close>, unless it is already an own property, reaches the accessor of
  \<open>Object.prototype\<close>, which sets the prototype or does nothing and creates no property.
\<close>

definition obj_set :: "(string \<times> 'v) list \<Rightarrow> string \<Rightarrow> 'v \<Rightarrow> (string \<times> 'v) list" where
  "obj_set obj k v =
     (if k = ''__proto__'' \<and> k \<notin> fst ` set obj then obj else AList.update k v obj)"

text \<open>
  \<open>createSection\<close> has no \<open>try\<close> around the creation of the log file: the second
  component is \<open>None\<close> when that write throws.
\<close>

definition createSection :: "env \<Rightarrow> string \<Rightarrow> string \<Rightarrow> fs \<Rightarrow> fs \<times> string option" where
  "createSection E name description s =
     (let sanitizedName = sanitize name;
          logFilePath = getLogFilePath sanitizedName
      in case (if \<not> existsSync_s s logFilePath then writeFileSync_s E logFilePath [] s
               else Some s) of
           None \<Rightarrow> (s, None)
         | Some s1 \<Rightarrow>
             (let (s2, metadata) = getSectionMetadata E s1;
                  s3 = saveSectionMetadata E (obj_set metadata sanitizedName description) s2
              in (s3, Some sanitizedName)))"

definition loadAllLogs :: "env \<Rightarrow> string \<Rightarrow> fs \<Rightarrow> fs \<times> string list" where
  "loadAllLogs E section s =
     (let logFilePath = getLogFilePath section
      in if existsSync_s s logFilePath then
           (case readFileSync_s E s logFilePath of
              None \<Rightarrow> (console_log (Err ''Error loading logs:'') s, [])
            | Some text \<Rightarrow>
                (s, filter (\<lambda>line. trim line \<noteq> []) (split_on (CHR 0x0A) (trim text))))
         else (s, []))"

definition saveLog :: "env \<Rightarrow> string \<Rightarrow> string \<Rightarrow> fs \<Rightarrow> fs \<times> bool" where
  "saveLog E section logEntry s =
     (let logFilePath = getLogFilePath section
      in case appendFileSync_s E logFilePath (logEntry @ [CHR 0x0A]) s of
           None \<Rightarrow> (console_log (Err ''Error saving log:'') s, False)
         | Some s1 \<Rightarrow>
             (case statSync_size_s E s1 logFilePath of
                None \<Rightarrow> (console_log (Err ''Error saving log:'') s1, False)
              | Some sz \<Rightarrow> (s1, sz > logRotationSize)))"

section \<open>tag.js\<close>






section \<open>backup.js\<close>

subsection \<open>The backup directory\<close>

definition file_b :: "fs \<Rightarrow> string \<Rightarrow> bfile option" where
  "file_b s n = (case backupDir s of None \<Rightarrow> None | Some d \<Rightarrow> map_of d n)"

definition existsSync_b :: "fs \<Rightarrow> string \<Rightarrow> bool" where
  "existsSync_b s n \<longleftrightarrow> file_b s n \<noteq> None"

definition readFileSync_b :: "env \<Rightarrow> fs \<Rightarrow> string \<Rightarrow> fdata option" where
  "readFileSync_b E s n =
     (if faulty E (ReadFile BackupDir n) then None else map_option b_data (file_b s n))"

text \<open>A write sets the modification time of the file to the reading of the clock.\<close>

definition writeFileSync_b :: "env \<Rightarrow> string \<Rightarrow> fdata \<Rightarrow> fs \<Rightarrow> fs option" where
  "writeFileSync_b E n c s =
     (if faulty E (WriteFile BackupDir n) then None
      else case backupDir s of
        None \<Rightarrow> None
      | Some d \<Rightarrow>
          Some (s\<lparr>backupDir :=
                    Some (put (slot E (map fst d) n) n
                      \<lparr>b_data = c, b_mtime = clock E (ticks s)\<rparr> d),
                  ticks := Suc (ticks s),
                  effects := effects s @ [Wrote BackupDir n]\<rparr>))"

text \<open>\<open>fs.statSync(path).mtime\<close> of a file of the backup directory.\<close>

definition statSync_mtime_b :: "env \<Rightarrow> fs \<Rightarrow> string \<Rightarrow> int option" where
  "statSync_mtime_b E s n =
     (if faulty E (Stat BackupDir n) then None else map_option b_mtime (file_b s n))"

definition readdirSync_b :: "env \<Rightarrow> fs \<Rightarrow> string list option" where
  "readdirSync_b E s =
     (if faulty E (Readdir BackupDir) then None
      else map_option (map fst) (backupDir s))"

definition unlinkSync_b :: "env \<Rightarrow> string \<Rightarrow> fs \<Rightarrow> fs option" where
  "unlinkSync_b E n s =
     (if faulty E (Unlink BackupDir n) then None
      else case backupDir s of
        None \<Rightarrow> None
      | Some d \<Rightarrow>
          if map_of d n = None then None
          else Some (s\<lparr>backupDir := Some (AList.delete n d),
                       effects := effects s @ [Unlinked BackupDir n]\<rparr>))"


subsection \<open>The configuration\<close>

record backup_config =
  maxBackupsPerSection :: int
  retentionDays :: int
  useCompression :: bool
  backupExtension :: string
  compressedExtension :: string
  fullBackupPrefix :: string

definition backupConfig :: backup_config where
  "backupConfig =
     \<lparr>maxBackupsPerSection = 5, retentionDays = 30, useCompression = True,
      backupExtension = ''.bak'', compressedExtension = ''.bak.gz'',
      fullBackupPrefix = ''full-backup-''\<rparr>"

text \<open>\<open>new Date().toISOString().replace(/[:.]/g, '-')\<close>, from the reading of the clock.\<close>

definition timestamp_of :: "env \<Rightarrow> int \<Rightarrow> string" where
  "timestamp_of E t =
     map (\<lambda>c. if c = CHR '':'' \<or> c = CHR ''.'' then CHR ''-'' else c) (toISOString E t)"

text \<open>\<open>xs.slice(k)\<close>: from index \<open>k\<close>, or the last \<open>-k\<close> elements for a negative \<open>k\<close>.\<close>

definition slice_from :: "int \<Rightarrow> 'a list \<Rightarrow> 'a list" where
  "slice_from k xs = (if k < 0 then drop (length xs - nat (- k)) xs else drop (nat k) xs)"

subsection \<open>Listing\<close>

text \<open>
  \<open>file.match(/^([^-]+)-/)\<close>: the text before the first \<open>-\<close>, when there is a \<open>-\<close> and
  it is not the first character.
\<close>

definition section_of_name :: "string \<Rightarrow> string option" where
  "section_of_name file =
     (let p = takeWhile (\<lambda>c. c \<noteq> CHR ''-'') file
      in if p \<noteq> [] \<and> length p < length file then Some p else None)"

definition backup_record_of :: "env \<Rightarrow> backup_config \<Rightarrow> fs \<Rightarrow> string \<Rightarrow> backup_record option" where
  "backup_record_of E C s file =
     (case statSync_mtime_b E s file of
        None \<Rightarrow> None
      | Some mtime \<Rightarrow>
          Some (if startsWith file (fullBackupPrefix C)
                then \<lparr>br_path = file, br_name = file, br_date = mtime,
                      br_type = Full, br_section = None\<rparr>
                else \<lparr>br_path = file, br_name = file, br_date = mtime,
                      br_type = Section, br_section = section_of_name file\<rparr>))"

definition listAllBackups :: "env \<Rightarrow> backup_config \<Rightarrow> fs \<Rightarrow> fs \<times> backup_record list" where
  "listAllBackups E C s =
     (if backupDir s = None then (s, [])
      else case readdirSync_b E s of
        None \<Rightarrow> (console_log (Err ''error listing backups:'') s, [])
      | Some files \<Rightarrow>
          (case those (map (backup_record_of E C s) files) of
             None \<Rightarrow> (console_log (Err ''error listing backups:'') s, [])
           | Some records \<Rightarrow> (s, records)))"

text \<open>\<open>listBackups()\<close> as the program calls it, without arguments.\<close>

definition listBackups :: "env \<Rightarrow> backup_config \<Rightarrow> fs \<Rightarrow> fs \<times> backup_record list" where
  "listBackups E C s =
     (let (s1, allBackups) = listAllBackups E C s;
          fullBackups = filter (\<lambda>b. br_type b = Full) allBackups;
          sectionBackups = filter (\<lambda>b. br_type b = Section) allBackups;
          printed =
            [Out ''Available backups:'', Out ''Full backups:'']
            @ (if fullBackups = [] then [Out ''No full backups available.'']
               else map (\<lambda>(index, b). OutFullBackup (index + 1) b) (enumerate 0 fullBackups))
            @ [Out ''Section backups:'']
            @ (if sectionBackups = [] then [Out ''No section backups available.'']
               else map (\<lambda>(index, b). OutSectionBackup (index + 1) b)
                      (enumerate 0 sectionBackups))
            @ [Out ''Use /restore <type> <number> to restore a specific backup'',
               Out ''Example: /restore full 1 or /restore section 1'']
      in (s1\<lparr>console := console s1 @ printed\<rparr>, fullBackups @ sectionBackups))"

subsection \<open>Retention\<close>

text \<open>
  \<open>for (const backup of toDelete) { fs.unlinkSync(backup.path); console.log(...) }\<close>:
  the second component is \<open>False\<close> when an \<open>unlinkSync\<close> throws, which ends the loop.
\<close>

fun unlink_each :: "env \<Rightarrow> (backup_record \<Rightarrow> string) \<Rightarrow> backup_record list \<Rightarrow> fs \<Rightarrow> fs \<times> bool" where
  "unlink_each E msg [] s = (s, True)"
| "unlink_each E msg (b # bs) s =
     (case unlinkSync_b E (br_path b) s of
        None \<Rightarrow> (s, False)
      | Some s1 \<Rightarrow> unlink_each E msg bs (console_log (Out (msg b)) s1))"

definition cleanupOldBackups :: "env \<Rightarrow> backup_config \<Rightarrow> string \<Rightarrow> fs \<Rightarrow> fs" where
  "cleanupOldBackups E C section s =
     (let failed = console_log (Err (''error cleaning up backups for section '' @ section @ '':''));
          (s1, allBackups) = listAllBackups E C s;
          backups = filter (\<lambda>b. br_type b = Section \<and> br_section b = Some section) allBackups;
          (s2, done) =
            (if int (length backups) > maxBackupsPerSection C
             then unlink_each E (\<lambda>b. ''deleted old backup: '' @ br_name b)
                    (slice_from (maxBackupsPerSection C) backups) s1
             else (s1, True))
      in if \<not> done then failed s2
         else if retentionDays C > 0 then
           (let (now, s3) = new_Date E s2;
                cutoffDate = minusDays E now (retentionDays C);
                expiredBackups = filter (\<lambda>b. br_date b < cutoffDate) backups;
                (s4, done') =
                  unlink_each E (\<lambda>b. ''deleted expired backup: '' @ br_name b) expiredBackups s3
            in if done' then s4 else failed s4)
         else s2)"

text \<open>The messages of \<open>cleanupOldFullBackups\<close> print \<open>backup.filename\<close>, which no record has.\<close>

definition cleanupOldFullBackups :: "env \<Rightarrow> backup_config \<Rightarrow> fs \<Rightarrow> fs" where
  "cleanupOldFullBackups E C s =
     (let failed = console_log (Err ''error cleaning up full backups:'');
          (s1, listed) = listBackups E C s;
          backups = filter (\<lambda>b. br_type b = Full) listed;
          (s2, done) =
            (if int (length backups) > maxBackupsPerSection C
             then unlink_each E (\<lambda>b. ''deleted old full backup: undefined'')
                    (slice_from (maxBackupsPerSection C) backups) s1
             else (s1, True))
      in if \<not> done then failed s2
         else if retentionDays C > 0 then
           (let (now, s3) = new_Date E s2;
                cutoffDate = minusDays E now (retentionDays C);
                expiredBackups = filter (\<lambda>b. br_date b < cutoffDate) backups;
                (s4, done') =
                  unlink_each E (\<lambda>b. ''deleted expired full backup: undefined'')
                    expiredBackups s3
            in if done' then s4 else failed s4)
         else s2)"

subsection \<open>Creating backups\<close>

text \<open>
  The result is the path of the artifact, as its name in the backup directory, or
  \<open>None\<close> for \<open>null\<close>. A path in a message is printed as that name.
\<close>

definition backupSection :: "env \<Rightarrow> backup_config \<Rightarrow> string \<Rightarrow> bool \<Rightarrow> fs \<Rightarrow> fs \<times> string option" where
  "backupSection E C section rotateLog s =
     (let logFilePath = section @ ''.txt'';
          failed = (\<lambda>s'. (console_log
                      (Err (''error creating backup for section '' @ section @ '':'')) s', None))
      in if \<not> existsSync_s s logFilePath then
           (console_log (Out (''no log file found for section: '' @ section)) s, None)
         else
           (let (now, s1) = new_Date E s;
                backupPath = section @ ''-'' @ timestamp_of E now @ backupExtension C
            in case readFileSync_s E s1 logFilePath of
                 None \<Rightarrow> failed s1
               | Some content \<Rightarrow>
                   if useCompression C then
                     (let compressedPath = backupPath @ ''.gz''
                      in case writeFileSync_b E compressedPath (Gz content) s1 of
                           None \<Rightarrow> failed s1
                         | Some s2 \<Rightarrow>
                             (case (if rotateLog then writeFileSync_s E logFilePath [] s2
                                    else Some s2) of
                                None \<Rightarrow> failed s2
                              | Some s3 \<Rightarrow>
                                  (cleanupOldBackups E C section
                                     (console_log
                                        (Out (''compressed backup created: '' @ compressedPath)) s3),
                                   Some compressedPath)))
                   else
                     (case writeFileSync_b E backupPath (Text content) s1 of
                        None \<Rightarrow> failed s1
                      | Some s2 \<Rightarrow>
                          (case (if rotateLog then writeFileSync_s E logFilePath [] s2
                                 else Some s2) of
                             None \<Rightarrow> failed s2
                           | Some s3 \<Rightarrow>
                               (cleanupOldBackups E C section
                                  (console_log (Out (''backup created: '' @ backupPath)) s3),
                                Some backupPath)))))"

text \<open>The copy of \<open>getSections\<close> in \<open>backup.js\<close>, which differs in its message.\<close>

definition getSections_b :: "env \<Rightarrow> fs \<Rightarrow> fs \<times> string list" where
  "getSections_b E s =
     (case readdirSync_s E s of
        None \<Rightarrow> (console_log (Err ''error loading sections:'') s, [])
      | Some files \<Rightarrow>
          (s, map (replace_first ''.txt'' [])
                (filter (\<lambda>file. endsWith file ''.txt'' \<and> file \<noteq> ''metadata.json'') files)))"

text \<open>
  The loop of \<open>createFullBackup\<close> over the sections, which fills \<open>backupData.sections\<close>:
  \<open>None\<close> when a \<open>readFileSync\<close> throws.
\<close>

fun collect_sections :: "env \<Rightarrow> fs \<Rightarrow> string list \<Rightarrow> (string \<times> string) list \<Rightarrow> (string \<times> string) list option" where
  "collect_sections E s [] acc = Some acc"
| "collect_sections E s (section # rest) acc =
     (if existsSync_s s (section @ ''.txt'') then
        (case readFileSync_s E s (section @ ''.txt'') of
           None \<Rightarrow> None
         | Some content \<Rightarrow> collect_sections E s rest (obj_set acc section content))
      else collect_sections E s rest acc)"

text \<open>
  The part of \<open>createFullBackup\<close> that builds \<open>backupData\<close>: the sections, the
  timestamp, the parsed sidecar (the empty object when there is no sidecar) and the
  content of each section. The second component is \<open>None\<close> when a read or
  \<open>JSON.parse\<close> throws.
\<close>

definition build_backupData :: "env \<Rightarrow> fs \<Rightarrow> fs \<times> backupData option" where
  "build_backupData E s =
     (let (s1, sections) = getSections_b E s;
          (now, s2) = new_Date E s1
      in case (if existsSync_s s2 metadataFile then
                 (case readFileSync_s E s2 metadataFile of
                    None \<Rightarrow> None
                  | Some metadataContent \<Rightarrow> JSON_parse_metadata E metadataContent)
               else Some []) of
           None \<Rightarrow> (s2, None)
         | Some metadata \<Rightarrow>
             (case collect_sections E s2 sections [] of
                None \<Rightarrow> (s2, None)
              | Some contents \<Rightarrow>
                  (s2, Some \<lparr>bd_timestamp = toISOString E now,
                             bd_metadata = Some metadata,
                             bd_sections = contents\<rparr>)))"


subsection \<open>Restoring\<close>

text \<open>
  The loop of \<open>restoreFullBackup\<close> over \<open>Object.entries(backupData.sections)\<close>, with
  \<open>successCount\<close>: the second component is \<open>None\<close> when a \<open>writeFileSync\<close> throws.
\<close>

fun restore_sections :: "env \<Rightarrow> bool \<Rightarrow> (string \<times> string) list \<Rightarrow> nat \<Rightarrow> fs \<Rightarrow> fs \<times> nat option" where
  "restore_sections E overwrite [] successCount s = (s, Some successCount)"
| "restore_sections E overwrite ((section, content) # rest) successCount s =
     (if overwrite \<or> \<not> existsSync_s s (section @ ''.txt'') then
        (case writeFileSync_s E (section @ ''.txt'') content s of
           None \<Rightarrow> (s, None)
         | Some s1 \<Rightarrow> restore_sections E overwrite rest (Suc successCount) s1)
      else restore_sections E overwrite rest successCount
             (console_log (Out (''skipping section '' @ section @ '' (file exists)'')) s))"

definition restoreFullBackup :: "env \<Rightarrow> backupData \<Rightarrow> bool \<Rightarrow> fs \<Rightarrow> fs \<times> bool" where
  "restoreFullBackup E backupData overwrite s =
     (let failed = (\<lambda>s'. (console_log (Err ''error restoring full backup:'') s', False))
      in case (if sectionsDir s = None then mkdirSync_s E s else Some s) of
           None \<Rightarrow> failed s
         | Some s1 \<Rightarrow>
             (case (case bd_metadata backupData of
                      None \<Rightarrow> Some s1
                    | Some metadata \<Rightarrow>
                        if overwrite \<or> \<not> existsSync_s s1 metadataFile then
                          map_option (console_log (Out ''metadata restored''))
                            (writeFileSync_s E metadataFile
                               (JSON_stringify_metadata E metadata) s1)
                        else Some (console_log
                               (Out ''skipping metadata restoration (file exists)'') s1)) of
                None \<Rightarrow> failed s1
              | Some s2 \<Rightarrow>
                  (case restore_sections E overwrite (bd_sections backupData) 0 s2 of
                     (s3, None) \<Rightarrow> failed s3
                   | (s3, Some successCount) \<Rightarrow>
                       (console_log
                          (Out (''restored '' @ decimal successCount @ '' of ''
                                @ decimal (length (bd_sections backupData)) @ '' sections'')) s3,
                        True))))"

definition restoreSectionBackup :: "env \<Rightarrow> string \<Rightarrow> string \<Rightarrow> bool \<Rightarrow> fs \<Rightarrow> fs \<times> bool" where
  "restoreSectionBackup E section content overwrite s =
     (let logFilePath = section @ ''.txt''
      in if overwrite \<or> \<not> existsSync_s s logFilePath then
           (case writeFileSync_s E logFilePath content s of
              None \<Rightarrow> (console_log (Err (''error restoring section '' @ section @ '':'')) s, False)
            | Some s1 \<Rightarrow>
                (console_log (Out (''section '' @ section @ '' restored successfully'')) s1, True))
         else (console_log (Out (''skipping section '' @ section @ '' (file exists)'')) s, False))"

text \<open>
  The content of the artifact as \<open>restoreFromBackup\<close> reads it: through \<open>gunzipSync\<close>,
  which throws on what is no gzip stream, when the path ends in \<open>.gz\<close>, and as UTF-8 text
  otherwise.
\<close>

definition read_backup :: "env \<Rightarrow> fs \<Rightarrow> string \<Rightarrow> string option" where
  "read_backup E s backupPath =
     (if endsWith backupPath ''.gz'' then
        (case readFileSync_b E s backupPath of Some (Gz c) \<Rightarrow> Some c | _ \<Rightarrow> None)
      else
        (case readFileSync_b E s backupPath of
           Some (Text c) \<Rightarrow> Some c
         | Some (Gz c) \<Rightarrow> Some (utf8_of_gz E c)
         | None \<Rightarrow> None))"

text \<open>
  \<open>backupPath\<close> and \<open>section\<close> are \<open>None\<close> for \<open>null\<close>; \<open>fs.existsSync(null)\<close> is false,
  and the empty section name is falsy as \<open>null\<close> is.
\<close>

definition restoreFromBackup :: "env \<Rightarrow> backup_config \<Rightarrow> string option \<Rightarrow> string option \<Rightarrow> bool \<Rightarrow> fs \<Rightarrow> fs \<times> bool" where
  "restoreFromBackup E C backupPath section overwrite s =
     (case backupPath of
        None \<Rightarrow> (console_log (Err ''backup file not found: null'') s, False)
      | Some p \<Rightarrow>
          if \<not> existsSync_b s p then
            (console_log (Err (''backup file not found: '' @ p)) s, False)
          else
            (case read_backup E s p of
               None \<Rightarrow> (console_log (Err ''error restoring from backup:'') s, False)
             | Some backupContent \<Rightarrow>
                 if startsWith p (fullBackupPrefix C) then
                   (case JSON_parse_backup E backupContent of
                      None \<Rightarrow> (console_log (Err ''error restoring from backup:'') s, False)
                    | Some backupData \<Rightarrow> restoreFullBackup E backupData overwrite s)
                 else if section \<noteq> None \<and> section \<noteq> Some [] then
                   restoreSectionBackup E (the section) backupContent overwrite s
                 else
                   (console_log
                      (Err ''section name required for individual backup restoration'') s,
                    False)))"

section \<open>Vocabulary of the statements\<close>

text \<open>
  The text of a log file that received the entries \<open>es\<close>, and the entries with the white
  space at the two ends of that text removed: the leading white space of the first
  entry and the trailing white space of the last.
\<close>

definition log_text :: "string list \<Rightarrow> string" where
  "log_text es = concat (map (\<lambda>e. e @ [CHR 0x0A]) es)"

fun trimmed_ends :: "string list \<Rightarrow> string list" where
  "trimmed_ends [] = []"
| "trimmed_ends [e] = [trim e]"
| "trimmed_ends (e # es) = trimStart e # butlast es @ [trimEnd (last es)]"

text \<open>The state after \<open>appendEntry\<close> (\<open>saveLog\<close>) was called with each entry in turn.\<close>

definition saveLogs :: "env \<Rightarrow> string \<Rightarrow> string list \<Rightarrow> fs \<Rightarrow> fs" where
  "saveLogs E section es s = fold (\<lambda>e s'. fst (saveLog E section e s')) es s"

section \<open>A sample environment\<close>

text \<open>
  An environment for the examples: no call fails, a new entry of a directory is
  enumerated last, the clock advances by a millisecond at each reading from
  2026-11-02T20:44:00.000Z and the library functions have the values of Node.js at the
  arguments the examples reach (\<open>toISOString\<close> within that second, \<open>JSON.stringify\<close> and
  \<open>JSON.parse\<close> at the documents of the examples).
\<close>

definition sample_toISOString :: "int \<Rightarrow> string" where
  "sample_toISOString t =
     (let ms = decimal (nat (t - 1793652240000))
      in ''2026-11-02T20:44:00.''
         @ (if length ms = 1 then ''00'' else if length ms = 2 then ''0'' else [])
         @ ms @ ''Z'')"

definition sample_metadata_json :: string where
  \<open>sample_metadata_json =
     ''{'' @ [CHR 0x0A] @
     ''  "base": {'' @ [CHR 0x0A] @
     ''    "description": "General thoughts"'' @ [CHR 0x0A] @
     ''  }'' @ [CHR 0x0A] @
     ''}''\<close>

definition sample_JSON_stringify_metadata :: "metadata \<Rightarrow> string" where
  "sample_JSON_stringify_metadata m =
     (if m = [] then ''{}''
      else if m = [(''base'', ''General thoughts'')] then sample_metadata_json
      else ''{ }'')"

definition sample_JSON_parse_metadata :: "string \<Rightarrow> metadata option" where
  "sample_JSON_parse_metadata t =
     (if t = ''{}'' then Some []
      else if t = sample_metadata_json then Some [(''base'', ''General thoughts'')]
      else None)"

text \<open>
  Two documents for \<open>JSON.parse\<close> and \<open>JSON.stringify\<close> of a payload: a line of a log
  that is a JSON document with a member \<open>sections\<close>, and the payload
  \<open>createFullBackup\<close> builds in the state \<open>snapshot_fs\<close> below, with its text
  \<open>JSON.stringify(backupData, null, 2)\<close>.
\<close>

definition payload_log :: string where
  \<open>payload_log = ''{"sections":{"full-backup":"x"}}'' @ [CHR 0x0A]\<close>

definition payload_data :: backupData where
  "payload_data =
     \<lparr>bd_timestamp = [], bd_metadata = None, bd_sections = [(''full-backup'', ''x'')]\<rparr>"

definition snapshot_data :: backupData where
  "snapshot_data =
     \<lparr>bd_timestamp = ''2026-11-02T20:44:00.001Z'',
      bd_metadata = Some [(''base'', ''General thoughts'')],
      bd_sections = [(''base'', ''11/2/2026, 20:43:10 hello'' @ [CHR 0x0A])]\<rparr>"

definition snapshot_json :: string where
  \<open>snapshot_json =
     ''{'' @ [CHR 0x0A] @
     ''  "timestamp": "2026-11-02T20:44:00.001Z",'' @ [CHR 0x0A] @
     ''  "metadata": {'' @ [CHR 0x0A] @
     ''    "base": {'' @ [CHR 0x0A] @
     ''      "description": "General thoughts"'' @ [CHR 0x0A] @
     ''    }'' @ [CHR 0x0A] @
     ''  },'' @ [CHR 0x0A] @
     ''  "sections": {'' @ [CHR 0x0A] @
     ''    "base": "11/2/2026, 20:43:10 hello'' @ [CHR 0x5C] @ ''n"'' @ [CHR 0x0A] @
     ''  }'' @ [CHR 0x0A] @
     ''}''\<close>

definition sample_JSON_stringify_backup :: "backupData \<Rightarrow> string" where
  "sample_JSON_stringify_backup d = (if d = snapshot_data then snapshot_json else ''{ }'')"

definition sample_JSON_parse_backup :: "string \<Rightarrow> backupData option" where
  "sample_JSON_parse_backup t =
     (if t = payload_log then Some payload_data
      else if t = snapshot_json then Some snapshot_data
      else None)"

definition sample_env :: env where
  "sample_env =
     \<lparr>faulty = (\<lambda>call. False),
      slot = (\<lambda>names name. length names),
      clock = (\<lambda>n. 1793652240000 + int n),
      toISOString = sample_toISOString,
      minusDays = (\<lambda>t n. t - n * 86400000),
      utf8_of_gz = (\<lambda>c. ''?''),
      JSON_parse_metadata = sample_JSON_parse_metadata,
      JSON_stringify_metadata = sample_JSON_stringify_metadata,
      JSON_parse_backup = sample_JSON_parse_backup,
      JSON_stringify_backup = sample_JSON_stringify_backup\<rparr>"

definition empty_fs :: fs where
  "empty_fs = \<lparr>sectionsDir = Some [], backupDir = Some [], ticks = 0, console = [], effects = []\<rparr>"

text \<open>
  A run that does nothing to the files but delete some of the backup directory:
  the sections directory is as before, every file of the backup directory is as before
  or gone, and the calls that changed the file system are \<open>unlinkSync\<close> calls.
\<close>

definition only_unlinks :: "fs \<Rightarrow> fs \<Rightarrow> bool" where
  "only_unlinks s s' \<longleftrightarrow>
     sectionsDir s' = sectionsDir s
     \<and> (backupDir s' = None \<longleftrightarrow> backupDir s = None)
     \<and> (\<forall>n. file_b s' n = None \<or> file_b s' n = file_b s n)
     \<and> (\<exists>es. effects s' = effects s @ es \<and> (\<forall>e \<in> set es. \<exists>n. e = Unlinked BackupDir n))"

section \<open>Sample states\<close>

text \<open>
  The section \<open>my-notes\<close> with six backups, made on the first six days of September
  2026 at 10:00 UTC: each older than thirty days at the time of the sample clock.
\<close>

definition notes_backups :: "(string \<times> bfile) list" where
  "notes_backups =
     [(''my-notes-2026-09-01T10-00-00-000Z.bak.gz'', \<lparr>b_data = Gz ''one'', b_mtime = 1788256800000\<rparr>),
      (''my-notes-2026-09-02T10-00-00-000Z.bak.gz'', \<lparr>b_data = Gz ''two'', b_mtime = 1788343200000\<rparr>),
      (''my-notes-2026-09-03T10-00-00-000Z.bak.gz'', \<lparr>b_data = Gz ''three'', b_mtime = 1788429600000\<rparr>),
      (''my-notes-2026-09-04T10-00-00-000Z.bak.gz'', \<lparr>b_data = Gz ''four'', b_mtime = 1788516000000\<rparr>),
      (''my-notes-2026-09-05T10-00-00-000Z.bak.gz'', \<lparr>b_data = Gz ''five'', b_mtime = 1788602400000\<rparr>),
      (''my-notes-2026-09-06T10-00-00-000Z.bak.gz'', \<lparr>b_data = Gz ''six'', b_mtime = 1788688800000\<rparr>)]"

definition notes_fs :: fs where
  "notes_fs =
     \<lparr>sectionsDir = Some [(''my-notes.txt'', ''11/2/2026, 20:43:10 seven'' @ [CHR 0x0A])],
      backupDir = Some notes_backups, ticks = 0, console = [], effects = []\<rparr>"

text \<open>The section \<open>base\<close> with one entry, and no backup directory.\<close>

definition no_backups_fs :: fs where
  "no_backups_fs =
     \<lparr>sectionsDir = Some [(''base.txt'', ''11/2/2026, 20:43:10 hello'' @ [CHR 0x0A])],
      backupDir = None, ticks = 0, console = [], effects = []\<rparr>"

text \<open>The section \<open>base\<close> with a log, and one compressed backup of an older log.\<close>

definition restore_fs :: fs where
  "restore_fs =
     \<lparr>sectionsDir = Some [(''base.txt'', ''11/2/2026, 20:43:10 new'' @ [CHR 0x0A])],
      backupDir = Some [(''base-2026-11-01T10-00-00-000Z.bak.gz'',
                         \<lparr>b_data = Gz (''11/1/2026, 09:59:30 old'' @ [CHR 0x0A]),
                          b_mtime = 1793527200000\<rparr>)],
      ticks = 0, console = [], effects = []\<rparr>"


text \<open>
  Three sections on disk, \<open>a\<close>, \<open>b\<close> and \<open>d\<close>, with the sidecar; and the payload of a full
  backup that holds the sections \<open>a\<close>, \<open>b\<close> and \<open>c\<close>.
\<close>

definition merge_fs :: fs where
  "merge_fs =
     \<lparr>sectionsDir = Some [(''a.txt'', ''disk a''), (''b.txt'', ''disk b''),
                         (''d.txt'', ''disk d''), (''metadata.json'', ''{}'')],
      backupDir = Some [], ticks = 0, console = [], effects = []\<rparr>"

definition merge_data :: backupData where
  "merge_data =
     \<lparr>bd_timestamp = ''2026-11-01T10:00:00.000Z'', bd_metadata = Some [],
      bd_sections = [(''a'', ''saved a''), (''b'', ''saved b''), (''c'', ''saved c'')]\<rparr>"

text \<open>
  The section \<open>full-backup\<close> after \<open>saveLog\<close> of one entry, the JSON document above.
\<close>

definition payload_fs :: fs where
  "payload_fs =
     \<lparr>sectionsDir = Some [(''full-backup.txt'', payload_log)],
      backupDir = Some [], ticks = 0, console = [], effects = []\<rparr>"

section \<open>Tags: extraction after creation\<close>





section \<open>Directories as maps\<close>

lemma map_of_insert_fresh:
  "n \<notin> fst ` set (xs @ ys) \<Longrightarrow> map_of (xs @ (n, v) # ys) = (map_of (xs @ ys))(n \<mapsto> v)"
  by (induction xs) (auto simp: fun_eq_iff)

lemma map_of_put: "map_of (put i n v d) = (map_of d)(n \<mapsto> v)"
proof (cases "n \<in> fst ` set d")
  case True
  then show ?thesis by (simp add: put_def update_conv')
next
  case False
  then have "n \<notin> fst ` set (take i d @ drop i d)" by simp
  from map_of_insert_fresh [OF this] False show ?thesis by (simp add: put_def)
qed


lemma map_of_delete: "map_of (AList.delete n d) = (map_of d)(n := None)"
  by (rule delete_conv')

section \<open>The effect of each file system call\<close>

lemma console_log_fields [simp]:
  "sectionsDir (console_log l s) = sectionsDir s"
  "backupDir (console_log l s) = backupDir s"
  "ticks (console_log l s) = ticks s"
  "effects (console_log l s) = effects s"
  "console (console_log l s) = console s @ [l]"
  by (simp_all add: console_log_def)

lemma console_log_files [simp]:
  "file_s (console_log l s) = file_s s"
  "file_b (console_log l s) = file_b s"
  "existsSync_s (console_log l s) = existsSync_s s"
  "existsSync_b (console_log l s) = existsSync_b s"
  by (simp_all add: file_s_def file_b_def existsSync_s_def existsSync_b_def fun_eq_iff)

lemma new_Date_fields [simp]:
  "fst (new_Date E s) = clock E (ticks s)"
  "sectionsDir (snd (new_Date E s)) = sectionsDir s"
  "backupDir (snd (new_Date E s)) = backupDir s"
  "ticks (snd (new_Date E s)) = Suc (ticks s)"
  "effects (snd (new_Date E s)) = effects s"
  "console (snd (new_Date E s)) = console s"
  by (simp_all add: new_Date_def)

lemma new_Date_files [simp]:
  "file_s (snd (new_Date E s)) = file_s s"
  "file_b (snd (new_Date E s)) = file_b s"
  "existsSync_s (snd (new_Date E s)) = existsSync_s s"
  "existsSync_b (snd (new_Date E s)) = existsSync_b s"
  by (simp_all add: file_s_def file_b_def existsSync_s_def existsSync_b_def fun_eq_iff)

lemma writeFileSync_s_None:
  "writeFileSync_s E n c s = None \<longleftrightarrow> faulty E (WriteFile SectionsDir n) \<or> sectionsDir s = None"
  by (simp add: writeFileSync_s_def split: option.splits)

lemma writeFileSync_s_Some:
  assumes "writeFileSync_s E n c s = Some s'"
  shows "file_s s' = (file_s s)(n \<mapsto> c)"
    and "sectionsDir s \<noteq> None" and "sectionsDir s' \<noteq> None"
    and "backupDir s' = backupDir s" and "ticks s' = ticks s" and "console s' = console s"
    and "effects s' = effects s @ [Wrote SectionsDir n]"
    and "\<not> faulty E (WriteFile SectionsDir n)"
  using assms
  by (auto simp: writeFileSync_s_def file_s_def map_of_put fun_eq_iff
           split: option.splits if_splits)

lemma writeFileSync_s_file_b:
  "writeFileSync_s E n c s = Some s' \<Longrightarrow> file_b s' = file_b s"
  by (simp add: file_b_def fun_eq_iff writeFileSync_s_Some(4))

lemma mkdirSync_s_Some:
  assumes "mkdirSync_s E s = Some s'"
  shows "sectionsDir s' = Some []" and "file_s s' = (\<lambda>n. None)"
    and "backupDir s' = backupDir s" and "ticks s' = ticks s" and "console s' = console s"
    and "effects s' = effects s @ [MadeDir SectionsDir]"
  using assms
  by (auto simp: mkdirSync_s_def file_s_def fun_eq_iff split: if_splits)

lemma file_s_None_dir: "sectionsDir s = None \<Longrightarrow> file_s s n = None"
  by (simp add: file_s_def)

lemma file_b_None_dir: "backupDir s = None \<Longrightarrow> file_b s n = None"
  by (simp add: file_b_def)

lemma writeFileSync_b_None:
  "writeFileSync_b E n c s = None \<longleftrightarrow> faulty E (WriteFile BackupDir n) \<or> backupDir s = None"
  by (simp add: writeFileSync_b_def split: option.splits)

lemma writeFileSync_b_Some:
  assumes "writeFileSync_b E n c s = Some s'"
  shows "file_b s' = (file_b s)(n \<mapsto> \<lparr>b_data = c, b_mtime = clock E (ticks s)\<rparr>)"
    and "backupDir s \<noteq> None" and "backupDir s' \<noteq> None"
    and "sectionsDir s' = sectionsDir s" and "ticks s' = Suc (ticks s)"
    and "console s' = console s"
    and "effects s' = effects s @ [Wrote BackupDir n]"
    and "\<not> faulty E (WriteFile BackupDir n)"
  using assms
  by (auto simp: writeFileSync_b_def file_b_def map_of_put fun_eq_iff
           split: option.splits if_splits)

lemma writeFileSync_b_file_s:
  "writeFileSync_b E n c s = Some s' \<Longrightarrow> file_s s' = file_s s"
  by (simp add: file_s_def fun_eq_iff writeFileSync_b_Some(4))

lemma unlinkSync_b_Some:
  assumes "unlinkSync_b E n s = Some s'"
  shows "file_b s' = (file_b s)(n := None)" and "file_b s n \<noteq> None"
    and "backupDir s' = map_option (AList.delete n) (backupDir s)"
    and "sectionsDir s' = sectionsDir s" and "ticks s' = ticks s" and "console s' = console s"
    and "effects s' = effects s @ [Unlinked BackupDir n]"
  using assms
  by (auto simp: unlinkSync_b_def file_b_def map_of_delete fun_eq_iff
           split: option.splits if_splits)

lemma unlinkSync_b_None:
  "unlinkSync_b E n s = None \<longleftrightarrow> faulty E (Unlink BackupDir n) \<or> file_b s n = None"
  by (auto simp: unlinkSync_b_def file_b_def split: option.splits)


lemma writeFileSync_b_dir:
  assumes "writeFileSync_b E n c s = Some s'"
  shows "\<exists>d. backupDir s = Some d
           \<and> backupDir s' = Some (put (slot E (map fst d) n) n
                                   \<lparr>b_data = c, b_mtime = clock E (ticks s)\<rparr> d)"
  using assms by (auto simp: writeFileSync_b_def split: if_splits option.splits)

section \<open>Trimming and splitting\<close>

lemma all_dropWhile_iff: "(\<forall>c \<in> set (dropWhile P xs). P c) \<longleftrightarrow> (\<forall>c \<in> set xs. P c)"
  by (induction xs) auto

lemma trim_empty_iff: "trim e = [] \<longleftrightarrow> (\<forall>c \<in> set e. is_ws c)"
  by (simp add: trim_def trimEnd_def trimStart_def dropWhile_eq_Nil_conv all_dropWhile_iff)

lemma split_on_single: "d \<notin> set a \<Longrightarrow> split_on d a = [a]"
  by (induction a) auto

lemma split_on_line: "d \<notin> set a \<Longrightarrow> split_on d (a @ d # b) = a # split_on d b"
  by (induction a) auto

lemma is_ws_nl: "is_ws (CHR 0x0A)"
  by (simp add: is_ws_def)

lemma trimStart_append:
  "\<exists>c \<in> set e. \<not> is_ws c \<Longrightarrow> trimStart (e @ r) = trimStart e @ r"
  by (auto simp: trimStart_def dropWhile_append1)

lemma trimEnd_append:
  "\<exists>c \<in> set e. \<not> is_ws c \<Longrightarrow> trimEnd (r @ e) = r @ trimEnd e"
  by (auto simp: trimEnd_def dropWhile_append1)

lemma trimEnd_nl: "trimEnd (e @ [CHR 0x0A]) = trimEnd e"
  by (simp add: trimEnd_def is_ws_nl)

lemma set_trimStart: "set (trimStart e) \<subseteq> set e"
  by (auto simp: trimStart_def dest: set_dropWhileD)

lemma set_trimEnd: "set (trimEnd e) \<subseteq> set e"
  by (auto simp: trimEnd_def dest: set_dropWhileD)

lemma nonblank_trimStart:
  "\<exists>c \<in> set e. \<not> is_ws c \<Longrightarrow> \<exists>c \<in> set (trimStart e). \<not> is_ws c"
  unfolding trimStart_def by (induction e) auto

lemma nonblank_trimEnd:
  assumes "\<exists>c \<in> set e. \<not> is_ws c" shows "\<exists>c \<in> set (trimEnd e). \<not> is_ws c"
proof -
  have "\<exists>c \<in> set (dropWhile is_ws xs). \<not> is_ws c" if "\<exists>c \<in> set xs. \<not> is_ws c" for xs
    using that by (induction xs) auto
  from this [of "rev e"] assms show ?thesis by (simp add: trimEnd_def)
qed

lemma split_on_lines:
  "\<forall>e \<in> set es. CHR 0x0A \<notin> set e \<Longrightarrow>
   split_on (CHR 0x0A) (log_text es @ z) = es @ split_on (CHR 0x0A) z"
  by (induction es) (simp_all add: log_text_def split_on_line)

lemma load_lines:
  assumes ok: "\<forall>e \<in> set es. CHR 0x0A \<notin> set e \<and> trim e \<noteq> []" and ne: "es \<noteq> []"
  shows "filter (\<lambda>line. trim line \<noteq> []) (split_on (CHR 0x0A) (trim (log_text es)))
         = trimmed_ends es"
proof -
  have nb: "\<exists>c \<in> set e. \<not> is_ws c" if "e \<in> set es" for e
    using ok that by (auto simp: trim_empty_iff)
  have nn: "CHR 0x0A \<notin> set e" if "e \<in> set es" for e
    using ok that by auto
  from ne obtain e1 r where es: "es = e1 # r" by (cases es) auto
  show ?thesis
  proof (cases r rule: rev_cases)
    case Nil
    have "trim (log_text es) = trim e1"
      using nb [of e1] es Nil
      by (simp add: log_text_def trim_def trimStart_append trimEnd_nl)
    moreover have "CHR 0x0A \<notin> set (trim e1)"
      using nn [of e1] es set_trimStart [of e1] set_trimEnd [of "trimStart e1"]
      by (auto simp: trim_def)
    moreover have "trim (trim e1) \<noteq> []"
    proof -
      have "\<exists>c \<in> set (trim e1). \<not> is_ws c"
        using nb [of e1] es nonblank_trimStart [of e1] nonblank_trimEnd [of "trimStart e1"]
        by (simp add: trim_def)
      then show ?thesis by (simp add: trim_empty_iff)
    qed
    ultimately show ?thesis using es Nil by (simp add: split_on_single)
  next
    case (snoc mid en)
    have e1: "\<exists>c \<in> set e1. \<not> is_ws c" and en: "\<exists>c \<in> set en. \<not> is_ws c"
      using nb es snoc by auto
    have "log_text es = e1 @ (CHR 0x0A # log_text mid @ en @ [CHR 0x0A])"
      using es snoc by (simp add: log_text_def)
    then have "trimStart (log_text es) = (trimStart e1 @ CHR 0x0A # log_text mid) @ (en @ [CHR 0x0A])"
      using e1 by (simp add: trimStart_append)
    moreover have "\<exists>c \<in> set (en @ [CHR 0x0A]). \<not> is_ws c" using en by auto
    ultimately have t: "trim (log_text es) = trimStart e1 @ CHR 0x0A # (log_text mid @ trimEnd en)"
      unfolding trim_def by (simp only: trimEnd_append trimEnd_nl) simp
    have n1: "CHR 0x0A \<notin> set (trimStart e1)"
      using nn [of e1] es set_trimStart [of e1] by auto
    have n2: "CHR 0x0A \<notin> set (trimEnd en)"
      using nn [of en] es snoc set_trimEnd [of en] by auto
    have mid: "\<forall>e \<in> set mid. CHR 0x0A \<notin> set e" using nn es snoc by auto
    have sp: "split_on (CHR 0x0A) (trim (log_text es)) = trimStart e1 # mid @ [trimEnd en]"
      by (simp add: t split_on_line [OF n1] split_on_lines [OF mid] split_on_single [OF n2])
    have f1: "trim (trimStart e1) \<noteq> []"
      using nonblank_trimStart [OF e1] by (simp add: trim_empty_iff)
    have f2: "trim (trimEnd en) \<noteq> []"
      using nonblank_trimEnd [OF en] by (simp add: trim_empty_iff)
    have f3: "filter (\<lambda>line. trim line \<noteq> []) mid = mid"
      using ok es snoc by (auto simp: filter_id_conv)
    have te: "trimmed_ends es = trimStart e1 # mid @ [trimEnd en]"
      using es snoc by (cases mid) simp_all
    show ?thesis
      by (simp add: sp te f1 f2 f3)
  qed
qed

lemma trimmed_ends_id:
  assumes "es \<noteq> []" and "trimStart (hd es) = hd es" and "trimEnd (last es) = last es"
  shows "trimmed_ends es = es"
proof (cases es rule: trimmed_ends.cases)
  case 1
  then show ?thesis using assms by simp
next
  case (2 e)
  then show ?thesis using assms by (simp add: trim_def)
next
  case (3 e e' r)
  then have "trimEnd (last (e' # r)) = last (e' # r)" and "trimStart e = e"
    using assms by simp_all
  then have "trimmed_ends (e # e' # r) = e # (butlast (e' # r) @ [last (e' # r)])"
    by simp
  also have "\<dots> = e # e' # r"
    by (simp only: append_butlast_last_id [OF list.distinct(2)])
  finally show ?thesis using 3 by simp
qed

section \<open>The log of a section\<close>

lemma file_s_saveLog:
  assumes "sectionsDir s \<noteq> None" and "\<not> faulty E (AppendFile SectionsDir (getLogFilePath section))"
  shows "file_s (fst (saveLog E section e s)) (getLogFilePath section)
           = Some ((case file_s s (getLogFilePath section) of None \<Rightarrow> [] | Some old \<Rightarrow> old)
                   @ e @ [CHR 0x0A])"
    and "sectionsDir (fst (saveLog E section e s)) \<noteq> None"
  using assms
  by (auto simp: saveLog_def appendFileSync_s_def file_s_def map_of_put console_log_def Let_def
           split: option.splits)

lemma file_s_saveLogs:
  assumes "sectionsDir s \<noteq> None" and "\<not> faulty E (AppendFile SectionsDir (getLogFilePath section))"
    and "es \<noteq> []"
  shows "file_s (saveLogs E section es s) (getLogFilePath section)
           = Some ((case file_s s (getLogFilePath section) of None \<Rightarrow> [] | Some old \<Rightarrow> old)
                   @ log_text es)"
  using assms
proof (induction es arbitrary: s)
  case Nil
  then show ?case by simp
next
  case (Cons e es)
  note step = file_s_saveLog [OF Cons.prems(1,2), of e]
  show ?case
  proof (cases "es = []")
    case True
    then show ?thesis using step by (simp add: saveLogs_def log_text_def)
  next
    case False
    from Cons.IH [OF step(2) Cons.prems(2) False] step(1)
    show ?thesis by (simp add: saveLogs_def log_text_def)
  qed
qed

lemma loadAllLogs_text:
  assumes "file_s s (getLogFilePath section) = Some t"
    and "\<not> faulty E (ReadFile SectionsDir (getLogFilePath section))"
  shows "snd (loadAllLogs E section s)
           = filter (\<lambda>line. trim line \<noteq> []) (split_on (CHR 0x0A) (trim t))"
  using assms by (simp add: loadAllLogs_def existsSync_s_def readFileSync_s_def)

lemma loadAllLogs_absent:
  "file_s s (getLogFilePath section) = None \<Longrightarrow> loadAllLogs E section s = (s, [])"
  by (simp add: loadAllLogs_def existsSync_s_def)

text \<open>
  C5, as stated: after any sequence of \<open>appendEntry\<close> calls with single-line non-blank
  texts, \<open>loadEntries\<close> returns exactly those entries. It fails for an entry that begins
  with white space: \<open>loadAllLogs\<close> trims the text of the whole file before it splits it,
  so after the one entry \<open>" idea"\<close> it returns \<open>"idea"\<close>.
\<close>

theorem loadAllLogs_leading_space_counterexample:
  "CHR 0x0A \<notin> set '' idea'' \<and> trim '' idea'' \<noteq> []
   \<and> snd (loadAllLogs sample_env ''base'' (saveLogs sample_env ''base'' ['' idea''] empty_fs))
       = [''idea'']"
  by (simp add: loadAllLogs_def saveLogs_def saveLog_def sample_env_def empty_fs_def
        appendFileSync_s_def statSync_size_s_def file_s_def put_def getLogFilePath_def
        existsSync_s_def readFileSync_s_def trim_def trimStart_def trimEnd_def is_ws_def
        Let_def)

text \<open>
  C5, amended: on a section whose file is absent or empty, in an existing sections
  directory and with no failing append or read of that file, after any sequence of
  \<open>saveLog\<close> calls with single-line non-blank entries \<open>loadAllLogs\<close> returns those entries
  in the order appended, none duplicated and none dropped, each as it was appended
  except that the leading white space of the first entry and the trailing white space of
  the last entry are removed; so exactly those entries when the first does not begin and
  the last does not end with white space. With no entry the result is empty, also for an
  absent file.
\<close>

theorem loadAllLogs_after_saveLogs:
  assumes dir: "sectionsDir s \<noteq> None"
    and fresh: "file_s s (getLogFilePath section) = None \<or> file_s s (getLogFilePath section) = Some []"
    and app: "\<not> faulty E (AppendFile SectionsDir (getLogFilePath section))"
    and rd: "\<not> faulty E (ReadFile SectionsDir (getLogFilePath section))"
    and ok: "\<forall>e \<in> set es. CHR 0x0A \<notin> set e \<and> trim e \<noteq> []"
  shows "snd (loadAllLogs E section (saveLogs E section es s)) = trimmed_ends es
         \<and> (es \<noteq> [] \<longrightarrow> trimStart (hd es) = hd es \<longrightarrow> trimEnd (last es) = last es \<longrightarrow>
              snd (loadAllLogs E section (saveLogs E section es s)) = es)"
proof -
  have "snd (loadAllLogs E section (saveLogs E section es s)) = trimmed_ends es"
  proof (cases "es = []")
    case True
    from fresh show ?thesis
    proof
      assume "file_s s (getLogFilePath section) = None"
      then show ?thesis using True by (simp add: saveLogs_def loadAllLogs_absent)
    next
      assume "file_s s (getLogFilePath section) = Some []"
      from loadAllLogs_text [OF this rd] show ?thesis
        using True by (simp add: saveLogs_def trim_def trimStart_def trimEnd_def)
    qed
  next
    case False
    from fresh file_s_saveLogs [OF dir app False]
    have "file_s (saveLogs E section es s) (getLogFilePath section) = Some (log_text es)"
      by auto
    from loadAllLogs_text [OF this rd] load_lines [OF ok False] show ?thesis by simp
  qed
  then show ?thesis by (simp add: trimmed_ends_id)
qed

theorem loadAllLogs_after_saveLogs_witness:
  "snd (loadAllLogs sample_env ''base''
          (saveLogs sample_env ''base'' [''one'', '' two '', ''three ''] empty_fs))
     = [''one'', '' two '', ''three'']"
proof -
  have dir: "sectionsDir empty_fs \<noteq> None"
    by (simp add: empty_fs_def)
  have fresh: "file_s empty_fs (getLogFilePath ''base'') = None
               \<or> file_s empty_fs (getLogFilePath ''base'') = Some []"
    by (simp add: empty_fs_def file_s_def)
  have app: "\<not> faulty sample_env (AppendFile SectionsDir (getLogFilePath ''base''))"
    and rd: "\<not> faulty sample_env (ReadFile SectionsDir (getLogFilePath ''base''))"
    by (simp_all add: sample_env_def)
  have ok: "\<forall>e \<in> set [''one'', '' two '', ''three '']. CHR 0x0A \<notin> set e \<and> trim e \<noteq> []"
    by (simp add: trim_def trimStart_def trimEnd_def is_ws_def)
  from loadAllLogs_after_saveLogs [OF dir fresh app rd ok]
  show ?thesis
    by (simp add: trimStart_def trimEnd_def is_ws_def)
qed

section \<open>Creating a section\<close>

lemma getLogFilePath_not_metadataFile [simp]:
  "getLogFilePath x \<noteq> metadataFile" "metadataFile \<noteq> getLogFilePath x"
  "x @ ''.txt'' \<noteq> metadataFile" "metadataFile \<noteq> x @ ''.txt''"
proof -
  show a: "x @ ''.txt'' \<noteq> metadataFile"
  proof
    assume "x @ ''.txt'' = metadataFile"
    then have "last (x @ ''.txt'') = last metadataFile" by simp
    then show False by (simp add: metadataFile_def)
  qed
  then show "getLogFilePath x \<noteq> metadataFile" "metadataFile \<noteq> getLogFilePath x"
    "metadataFile \<noteq> x @ ''.txt''"
    by (auto simp: getLogFilePath_def)
qed

lemma getSectionMetadata_state [simp]:
  "sectionsDir (fst (getSectionMetadata E s)) = sectionsDir s"
  "backupDir (fst (getSectionMetadata E s)) = backupDir s"
  "file_s (fst (getSectionMetadata E s)) = file_s s"
  "effects (fst (getSectionMetadata E s)) = effects s"
  by (auto simp: getSectionMetadata_def split: option.splits)

lemma getSectionMetadata_cong:
  "file_s s' metadataFile = file_s s metadataFile \<Longrightarrow>
   snd (getSectionMetadata E s') = snd (getSectionMetadata E s)"
  by (auto simp: getSectionMetadata_def existsSync_s_def readFileSync_s_def split: option.splits)

lemma saveSectionMetadata_ok:
  assumes "sectionsDir s \<noteq> None" and "\<not> faulty E (WriteFile SectionsDir metadataFile)"
  shows "file_s (saveSectionMetadata E m s) = (file_s s)(metadataFile \<mapsto> JSON_stringify_metadata E m)"
proof -
  from assms obtain s' where w: "writeFileSync_s E metadataFile (JSON_stringify_metadata E m) s = Some s'"
    using writeFileSync_s_None [of E metadataFile "JSON_stringify_metadata E m" s] by auto
  then show ?thesis by (simp add: saveSectionMetadata_def writeFileSync_s_Some(1) [OF w])
qed

lemma obj_set_same:
  "k \<noteq> ''__proto__'' \<or> k \<in> fst ` set obj \<Longrightarrow> map_of (obj_set obj k v) k = Some v"
  by (auto simp: obj_set_def update_conv')

lemma obj_set_other: "k' \<noteq> k \<Longrightarrow> map_of (obj_set obj k v) k' = map_of obj k'"
  by (auto simp: obj_set_def update_conv')

lemma obj_set_proto: "''__proto__'' \<notin> fst ` set obj \<Longrightarrow> obj_set obj ''__proto__'' v = obj"
  by (simp add: obj_set_def)

lemma createSection_ok:
  assumes dir: "sectionsDir s \<noteq> None"
    and w1: "\<not> faulty E (WriteFile SectionsDir (getLogFilePath (sanitize name)))"
    and w2: "\<not> faulty E (WriteFile SectionsDir metadataFile)"
  shows "snd (createSection E name description s) = Some (sanitize name)"
    and "file_s (fst (createSection E name description s)) =
           (file_s s)
             (getLogFilePath (sanitize name) \<mapsto>
                (case file_s s (getLogFilePath (sanitize name)) of None \<Rightarrow> [] | Some c \<Rightarrow> c),
              metadataFile \<mapsto>
                JSON_stringify_metadata E
                  (obj_set (snd (getSectionMetadata E s)) (sanitize name) description))"
proof -
  let ?log = "getLogFilePath (sanitize name)"
  let ?step = "if \<not> existsSync_s s ?log then writeFileSync_s E ?log [] s else Some s"
  obtain s1 where s1: "?step = Some s1"
    using dir w1 writeFileSync_s_None [of E ?log "[]" s] by (cases ?step) (auto split: if_splits)
  have f1: "file_s s1 = (file_s s)(?log \<mapsto> (case file_s s ?log of None \<Rightarrow> [] | Some c \<Rightarrow> c))"
    and d1: "sectionsDir s1 \<noteq> None"
  proof -
    show "file_s s1 = (file_s s)(?log \<mapsto> (case file_s s ?log of None \<Rightarrow> [] | Some c \<Rightarrow> c))"
    proof (cases "existsSync_s s ?log")
      case True
      then show ?thesis using s1 by (auto simp: existsSync_s_def fun_eq_iff)
    next
      case False
      then have "writeFileSync_s E ?log [] s = Some s1" using s1 by simp
      from writeFileSync_s_Some(1) [OF this] False show ?thesis
        by (simp add: existsSync_s_def)
    qed
    show "sectionsDir s1 \<noteq> None"
    proof (cases "existsSync_s s ?log")
      case True
      then show ?thesis using s1 dir by simp
    next
      case False
      then have "writeFileSync_s E ?log [] s = Some s1" using s1 by simp
      from writeFileSync_s_Some(3) [OF this] show ?thesis .
    qed
  qed
  have m: "snd (getSectionMetadata E s1) = snd (getSectionMetadata E s)"
    by (rule getSectionMetadata_cong) (simp add: f1)
  obtain s2 md where g: "getSectionMetadata E s1 = (s2, md)" by (cases "getSectionMetadata E s1")
  have s2: "file_s s2 = file_s s1" "sectionsDir s2 \<noteq> None" "md = snd (getSectionMetadata E s)"
    using g d1 m getSectionMetadata_state [of E s1] by auto
  have cs: "createSection E name description s
        = (saveSectionMetadata E (obj_set md (sanitize name) description) s2, Some (sanitize name))"
    using s1 g by (simp add: createSection_def Let_def)
  show "snd (createSection E name description s) = Some (sanitize name)"
    by (simp add: cs)
  show "file_s (fst (createSection E name description s)) =
           (file_s s)
             (?log \<mapsto> (case file_s s ?log of None \<Rightarrow> [] | Some c \<Rightarrow> c),
              metadataFile \<mapsto>
                JSON_stringify_metadata E
                  (obj_set (snd (getSectionMetadata E s)) (sanitize name) description))"
    by (simp add: cs saveSectionMetadata_ok [OF s2(2) w2] s2 f1)
qed

lemma sanitize_proto: "sanitize ''__proto__'' = ''__proto__''"
  by (simp add: sanitize_def id_char_def)

text \<open>
  For every id but \<open>__proto__\<close>, and for \<open>__proto__\<close> when the sidecar already has that
  key, the document that \<open>createSection\<close> writes is that of an object whose entry for the
  id is the description given, the other entries being those read.
\<close>

lemma createSection_sidecar_entry:
  assumes "sectionsDir s \<noteq> None"
    and "\<not> faulty E (WriteFile SectionsDir (getLogFilePath (sanitize name)))"
    and "\<not> faulty E (WriteFile SectionsDir metadataFile)"
    and "sanitize name \<noteq> ''__proto__''"
  shows "\<exists>m. file_s (fst (createSection E name description s)) metadataFile
               = Some (JSON_stringify_metadata E m)
             \<and> map_of m (sanitize name) = Some description
             \<and> (\<forall>k. k \<noteq> sanitize name \<longrightarrow>
                    map_of m k = map_of (snd (getSectionMetadata E s)) k)"
  using createSection_ok(2) [OF assms(1-3), of description] assms(4)
  by (intro exI [of _ "obj_set (snd (getSectionMetadata E s)) (sanitize name) description"])
     (simp add: obj_set_same obj_set_other)

text \<open>
  C6: \<open>createSection\<close> returns the sanitized id, creates an empty log file only if none
  exists, and rewrites the sidecar entry of the id so that the sidecar holds the latest
  description. The last part fails for the name \<open>__proto__\<close>, which the sanitizer leaves as
  it is: in an existing sections directory, with no failing write, and a sidecar that has
  no such key (or no sidecar), \<open>createSection\<close> returns the id \<open>__proto__\<close> and writes as
  the sidecar the document of the metadata it read, with no entry added.
\<close>

theorem createSection_proto_no_entry:
  assumes "sectionsDir s \<noteq> None"
    and "\<not> faulty E (WriteFile SectionsDir (getLogFilePath ''__proto__''))"
    and "\<not> faulty E (WriteFile SectionsDir metadataFile)"
    and "''__proto__'' \<notin> fst ` set (snd (getSectionMetadata E s))"
  shows "snd (createSection E ''__proto__'' description s) = Some ''__proto__''
         \<and> file_s (fst (createSection E ''__proto__'' description s)) metadataFile
             = Some (JSON_stringify_metadata E (snd (getSectionMetadata E s)))"
proof -
  have w1: "\<not> faulty E (WriteFile SectionsDir (getLogFilePath (sanitize ''__proto__'')))"
    using assms(2) by (simp add: sanitize_proto)
  from createSection_ok [OF assms(1) w1 assms(3), of description] assms(4)
  show ?thesis by (simp add: sanitize_proto obj_set_proto)
qed

theorem createSection_proto_no_entry_witness:
  "snd (createSection sample_env ''__proto__'' ''notes'' empty_fs) = Some ''__proto__''
   \<and> file_s (fst (createSection sample_env ''__proto__'' ''notes'' empty_fs)) metadataFile
       = Some ''{}''"
proof -
  have dir: "sectionsDir empty_fs \<noteq> None" by (simp add: empty_fs_def)
  have w1: "\<not> faulty sample_env (WriteFile SectionsDir (getLogFilePath ''__proto__''))"
    and w2: "\<not> faulty sample_env (WriteFile SectionsDir metadataFile)"
    by (simp_all add: sample_env_def)
  have m: "snd (getSectionMetadata sample_env empty_fs) = []"
    by (simp add: getSectionMetadata_def existsSync_s_def file_s_def empty_fs_def)
  then have fresh: "''__proto__'' \<notin> fst ` set (snd (getSectionMetadata sample_env empty_fs))"
    by simp
  from createSection_proto_no_entry [OF dir w1 w2 fresh, of "''notes''"] m
  show ?thesis by (simp add: sample_env_def sample_JSON_stringify_metadata_def)
qed

section \<open>Listing and retention\<close>

lemma those_map_Some: "those xs = Some ys \<Longrightarrow> xs = map Some ys"
  by (induction xs arbitrary: ys) (auto split: option.splits)

lemma listAllBackups_state [simp]:
  "sectionsDir (fst (listAllBackups E C s)) = sectionsDir s"
  "backupDir (fst (listAllBackups E C s)) = backupDir s"
  "ticks (fst (listAllBackups E C s)) = ticks s"
  "effects (fst (listAllBackups E C s)) = effects s"
  "file_s (fst (listAllBackups E C s)) = file_s s"
  "file_b (fst (listAllBackups E C s)) = file_b s"
  by (auto simp: listAllBackups_def split: option.splits)

lemma listBackups_state [simp]:
  "sectionsDir (fst (listBackups E C s)) = sectionsDir s"
  "backupDir (fst (listBackups E C s)) = backupDir s"
  "ticks (fst (listBackups E C s)) = ticks s"
  "effects (fst (listBackups E C s)) = effects s"
  "file_s (fst (listBackups E C s)) = file_s s"
  "file_b (fst (listBackups E C s)) = file_b s"
  by (simp_all add: listBackups_def Let_def case_prod_beta file_s_def file_b_def fun_eq_iff)

lemma section_of_name_no_hyphen: "section_of_name file = Some p \<Longrightarrow> CHR ''-'' \<notin> set p"
  by (auto simp: section_of_name_def Let_def split: if_splits dest: set_takeWhileD)

lemma backup_record_of_section:
  "backup_record_of E C s file = Some r \<Longrightarrow> br_section r = Some p \<Longrightarrow> CHR ''-'' \<notin> set p"
  by (auto simp: backup_record_of_def section_of_name_no_hyphen split: option.splits if_splits)

lemma listAllBackups_records:
  assumes "r \<in> set (snd (listAllBackups E C s))"
  shows "\<exists>file. backup_record_of E C s file = Some r"
proof -
  from assms obtain files rs where "those (map (backup_record_of E C s) files) = Some rs"
    and "r \<in> set rs"
    by (auto simp: listAllBackups_def split: option.splits if_splits)
  from those_map_Some [OF this(1)] have "set (map (backup_record_of E C s) files) = Some ` set rs"
    by simp
  with \<open>r \<in> set rs\<close> have "Some r \<in> backup_record_of E C s ` set files"
    by auto
  then show ?thesis by auto
qed

lemma only_unlinks_refl [simp]: "only_unlinks s s"
  by (simp add: only_unlinks_def)

lemma only_unlinks_trans: "only_unlinks s s1 \<Longrightarrow> only_unlinks s1 s2 \<Longrightarrow> only_unlinks s s2"
  unfolding only_unlinks_def
  apply (elim conjE exE)
  apply (intro conjI)
     apply simp
    apply simp
   apply (metis)
  apply (rule_tac x = "es @ esa" in exI)
  apply auto
  done

lemma only_unlinks_console_log [simp]:
  "only_unlinks s (console_log l s')  \<longleftrightarrow> only_unlinks s s'"
  "only_unlinks (console_log l s) s' \<longleftrightarrow> only_unlinks s s'"
  by (simp_all add: only_unlinks_def)

lemma only_unlinks_new_Date [simp]:
  "only_unlinks s (snd (new_Date E s')) \<longleftrightarrow> only_unlinks s s'"
  "only_unlinks (snd (new_Date E s)) s' \<longleftrightarrow> only_unlinks s s'"
  by (simp_all add: only_unlinks_def)

lemma only_unlinks_file_s: "only_unlinks s s' \<Longrightarrow> file_s s' = file_s s"
  by (simp add: only_unlinks_def file_s_def fun_eq_iff)

lemma unlink_each_only_unlinks:
  "unlink_each E msg bs s = (s', ok) \<Longrightarrow> only_unlinks s s'"
proof (induction bs arbitrary: s)
  case Nil
  then show ?case by simp
next
  case (Cons b bs)
  show ?case
  proof (cases "unlinkSync_b E (br_path b) s")
    case None
    then show ?thesis using Cons.prems by simp
  next
    case (Some s1)
    note u = unlinkSync_b_Some [OF Some]
    have 1: "only_unlinks s s1"
      using u by (auto simp: only_unlinks_def)
    from Cons.prems Some
    have "unlink_each E msg bs (console_log (Out (msg b)) s1) = (s', ok)" by simp
    from Cons.IH [OF this] have "only_unlinks s1 s'" by simp
    with 1 show ?thesis by (rule only_unlinks_trans)
  qed
qed

lemma listAllBackups_only_unlinks: "only_unlinks s (fst (listAllBackups E C s))"
  by (simp add: only_unlinks_def)

lemma listBackups_only_unlinks: "only_unlinks s (fst (listBackups E C s))"
  by (simp add: only_unlinks_def)

lemma unlink_each_only_unlinks_fst:
  "only_unlinks s s0 \<Longrightarrow> only_unlinks s (fst (unlink_each E msg bs s0))"
  using unlink_each_only_unlinks [of E msg bs s0] only_unlinks_trans [of s s0]
  by (cases "unlink_each E msg bs s0") auto

lemma cleanupOldBackups_only_unlinks: "only_unlinks s (cleanupOldBackups E C section s)"
  by (simp add: cleanupOldBackups_def Let_def case_prod_beta unlink_each_only_unlinks_fst
        listAllBackups_only_unlinks)

lemma cleanupOldFullBackups_only_unlinks: "only_unlinks s (cleanupOldFullBackups E C s)"
  by (simp add: cleanupOldFullBackups_def Let_def case_prod_beta unlink_each_only_unlinks_fst
        listBackups_only_unlinks)

lemma hyphen_filter_empty:
  assumes "CHR ''-'' \<in> set section"
  shows "filter (\<lambda>b. br_type b = Section \<and> br_section b = Some section)
           (snd (listAllBackups E C s)) = []"
proof -
  have "br_section r \<noteq> Some section" if "r \<in> set (snd (listAllBackups E C s))" for r
    using listAllBackups_records [OF that] backup_record_of_section [of E C s _ r "section"] assms
    by auto
  then show ?thesis by (auto simp: filter_empty_conv)
qed

lemma slice_from_Nil [simp]: "slice_from k [] = []"
  by (simp add: slice_from_def)

lemma cleanupOldBackups_nothing_matches:
  assumes "filter (\<lambda>b. br_type b = Section \<and> br_section b = Some section)
             (snd (listAllBackups E C s)) = []"
  shows "backupDir (cleanupOldBackups E C section s) = backupDir s"
    and "sectionsDir (cleanupOldBackups E C section s) = sectionsDir s"
    and "effects (cleanupOldBackups E C section s) = effects s"
    and "file_b (cleanupOldBackups E C section s) = file_b s"
  using assms
  by (simp_all add: cleanupOldBackups_def Let_def case_prod_beta file_b_def fun_eq_iff)

section \<open>The result of a section backup\<close>

lemma backupSection_Some:
  assumes "snd (backupSection E C section rotateLog s) = Some p"
  shows "\<exists>content s2 s3.
           file_s s (section @ ''.txt'') = Some content
         \<and> \<not> faulty E (ReadFile SectionsDir (section @ ''.txt''))
         \<and> p = section @ ''-'' @ timestamp_of E (clock E (ticks s)) @ backupExtension C
                @ (if useCompression C then ''.gz'' else [])
         \<and> writeFileSync_b E p (if useCompression C then Gz content else Text content)
               (snd (new_Date E s)) = Some s2
         \<and> (if rotateLog then writeFileSync_s E (section @ ''.txt'') [] s2 else Some s2) = Some s3
         \<and> fst (backupSection E C section rotateLog s)
             = cleanupOldBackups E C section
                 (console_log
                    (Out ((if useCompression C then ''compressed backup created: ''
                           else ''backup created: '') @ p)) s3)"
  using assms
  by (auto simp: backupSection_def Let_def case_prod_beta existsSync_s_def readFileSync_s_def
           split: if_splits option.splits)

section \<open>Retention and section ids with a hyphen\<close>

text \<open>
  C9: for every section id that contains a hyphen, \<open>cleanupOldBackups\<close> deletes no file.
  \<open>listAllBackups\<close> gives a section backup the text before the first \<open>-\<close> of its name
  as owner, which never equals such an id; so no record passes the filter of
  \<open>cleanupOldBackups\<close>, and both directories, and the list of calls that changed the
  file system, are after the cleanup what they were before.
\<close>

theorem cleanupOldBackups_hyphen:
  assumes "CHR ''-'' \<in> set section"
  shows "filter (\<lambda>b. br_type b = Section \<and> br_section b = Some section)
           (snd (listAllBackups E C s)) = []
         \<and> backupDir (cleanupOldBackups E C section s) = backupDir s
         \<and> sectionsDir (cleanupOldBackups E C section s) = sectionsDir s
         \<and> effects (cleanupOldBackups E C section s) = effects s"
  using hyphen_filter_empty [OF assms, of E C s]
    cleanupOldBackups_nothing_matches [of "section" E C s]
  by simp

theorem cleanupOldBackups_hyphen_witness:
  "backupDir (cleanupOldBackups sample_env backupConfig ''my-notes'' notes_fs) = Some notes_backups"
proof -
  have h: "CHR ''-'' \<in> set ''my-notes''" by simp
  from cleanupOldBackups_hyphen [OF h, of sample_env backupConfig notes_fs]
  show ?thesis by (simp add: notes_fs_def)
qed

text \<open>
  C2: after a successful backup of a section, the cleanup leaves at most
  \<open>maxBackupsPerSection\<close> backups of that section and none older than \<open>retentionDays\<close>.
  For a section id with a hyphen the code keeps every backup: whenever \<open>backupSection\<close>
  returns a path for such a section, the backup directory afterwards is the directory
  before with the new artifact put in, whatever the number and the age of the backups.
  In the sample state the section \<open>my-notes\<close> has six backups, all older than thirty
  days, and has seven after the call.
\<close>

theorem backupSection_hyphen_keeps_all:
  assumes "CHR ''-'' \<in> set section"
    and "snd (backupSection E C section rotateLog s) = Some p"
  shows "\<exists>d f. backupDir s = Some d
           \<and> backupDir (fst (backupSection E C section rotateLog s))
               = Some (put (slot E (map fst d) p) p f d)"
proof -
  from backupSection_Some [OF assms(2)] obtain content s2 s3 where
    w: "writeFileSync_b E p (if useCompression C then Gz content else Text content)
          (snd (new_Date E s)) = Some s2"
    and r: "(if rotateLog then writeFileSync_s E (section @ ''.txt'') [] s2 else Some s2) = Some s3"
    and c: "fst (backupSection E C section rotateLog s)
             = cleanupOldBackups E C section
                 (console_log
                    (Out ((if useCompression C then ''compressed backup created: ''
                           else ''backup created: '') @ p)) s3)"
    by blast
  have b3: "backupDir s3 = backupDir s2"
    using r by (auto split: if_splits simp: writeFileSync_s_Some(4))
  from writeFileSync_b_dir [OF w] obtain d where
    d: "backupDir s = Some d" and
    b2: "backupDir s2 = Some (put (slot E (map fst d) p) p
           \<lparr>b_data = (if useCompression C then Gz content else Text content),
            b_mtime = clock E (Suc (ticks s))\<rparr> d)"
    by auto
  have "backupDir (fst (backupSection E C section rotateLog s)) = backupDir s3"
    unfolding c
    using cleanupOldBackups_nothing_matches(1) [OF hyphen_filter_empty [OF assms(1)]]
    by simp
  with b3 b2 d show ?thesis by auto
qed

theorem backupSection_hyphen_keeps_all_witness:
  "map fst (the (backupDir (fst (backupSection sample_env backupConfig ''my-notes'' False notes_fs))))
     = map fst notes_backups @ [''my-notes-2026-11-02T20-44-00-000Z.bak.gz'']"
proof -
  have h: "CHR ''-'' \<in> set ''my-notes''" by simp
  have p: "snd (backupSection sample_env backupConfig ''my-notes'' False notes_fs)
             = Some ''my-notes-2026-11-02T20-44-00-000Z.bak.gz''"
    by (simp add: backupSection_def Let_def case_prod_beta existsSync_s_def file_s_def
          notes_fs_def readFileSync_s_def sample_env_def writeFileSync_b_def new_Date_def
          backupConfig_def timestamp_of_def sample_toISOString_def decimal.simps)
  from backupSection_hyphen_keeps_all [OF h p]
  show ?thesis
    by (auto simp: notes_fs_def put_def sample_env_def notes_backups_def)
qed

section \<open>Failures of a section backup, and the order of its writes\<close>

lemma backupSection_missing:
  assumes "\<not> existsSync_s s (section @ ''.txt'')"
  shows "backupSection E C section rotateLog s
         = (console_log (Out (''no log file found for section: '' @ section)) s, None)"
  using assms by (simp add: backupSection_def)

lemma backupSection_None_iff:
  assumes "existsSync_s s (section @ ''.txt'')"
  shows "snd (backupSection E C section rotateLog s) = None \<longleftrightarrow>
           faulty E (ReadFile SectionsDir (section @ ''.txt''))
         \<or> faulty E (WriteFile BackupDir
               (section @ ''-'' @ timestamp_of E (clock E (ticks s)) @ backupExtension C
                @ (if useCompression C then ''.gz'' else [])))
         \<or> backupDir s = None
         \<or> (rotateLog \<and> faulty E (WriteFile SectionsDir (section @ ''.txt'')))"
proof -
  have dir: "sectionsDir s \<noteq> None"
    using assms by (auto simp: existsSync_s_def file_s_def split: option.splits)
  have tr: "writeFileSync_s E n c s2 = None \<longleftrightarrow> faulty E (WriteFile SectionsDir n)"
    if "writeFileSync_b E p d (snd (new_Date E s)) = Some s2" for n c s2 p d
    using dir writeFileSync_b_Some(4) [OF that] by (auto simp: writeFileSync_s_None)
  show ?thesis
    using assms
    by (cases "useCompression C"; cases rotateLog;
        cases "faulty E (ReadFile SectionsDir (section @ ''.txt''))")
       (auto simp: backupSection_def Let_def case_prod_beta readFileSync_s_def existsSync_s_def
          writeFileSync_b_None tr split: option.splits
          dest: writeFileSync_b_Some(2,8) writeFileSync_s_Some(8))
qed

lemma backupSection_None_frame:
  assumes "snd (backupSection E C section rotateLog s) = None"
  shows "sectionsDir (fst (backupSection E C section rotateLog s)) = sectionsDir s"
    and "effects (fst (backupSection E C section rotateLog s)) = effects s
         \<or> effects (fst (backupSection E C section rotateLog s))
             = effects s @ [Wrote BackupDir
                 (section @ ''-'' @ timestamp_of E (clock E (ticks s)) @ backupExtension C
                  @ (if useCompression C then ''.gz'' else []))]"
    and "existsSync_s s (section @ ''.txt'') \<Longrightarrow>
         console (fst (backupSection E C section rotateLog s))
           = console s @ [Err (''error creating backup for section '' @ section @ '':'')]"
  using assms
  by (cases "useCompression C"; cases rotateLog;
      auto simp: backupSection_def Let_def case_prod_beta
           split: option.splits if_splits
           dest: writeFileSync_b_Some(4,6,7))+


lemma backupSection_Some_effects:
  assumes "snd (backupSection E C section rotateLog s) = Some p"
  shows "p = section @ ''-'' @ timestamp_of E (clock E (ticks s)) @ backupExtension C
             @ (if useCompression C then ''.gz'' else [])"
    and "\<exists>us. effects (fst (backupSection E C section rotateLog s))
                = effects s @ Wrote BackupDir p
                    # (if rotateLog then [Wrote SectionsDir (section @ ''.txt'')] else []) @ us
              \<and> (\<forall>e \<in> set us. \<exists>n. e = Unlinked BackupDir n)"
    and "\<not> rotateLog \<Longrightarrow> sectionsDir (fst (backupSection E C section rotateLog s)) = sectionsDir s"
proof -
  from backupSection_Some [OF assms] obtain content s2 s3 where
    p: "p = section @ ''-'' @ timestamp_of E (clock E (ticks s)) @ backupExtension C
             @ (if useCompression C then ''.gz'' else [])"
    and w: "writeFileSync_b E p (if useCompression C then Gz content else Text content)
          (snd (new_Date E s)) = Some s2"
    and r: "(if rotateLog then writeFileSync_s E (section @ ''.txt'') [] s2 else Some s2) = Some s3"
    and c: "fst (backupSection E C section rotateLog s)
             = cleanupOldBackups E C section
                 (console_log
                    (Out ((if useCompression C then ''compressed backup created: ''
                           else ''backup created: '') @ p)) s3)"
    by blast
  show "p = section @ ''-'' @ timestamp_of E (clock E (ticks s)) @ backupExtension C
             @ (if useCompression C then ''.gz'' else [])" by (rule p)
  note w' = writeFileSync_b_Some [OF w]
  have e3: "effects s3 = effects s @ Wrote BackupDir p
              # (if rotateLog then [Wrote SectionsDir (section @ ''.txt'')] else [])"
    using r w'(7) by (auto split: if_splits dest: writeFileSync_s_Some(7))
  have ou: "only_unlinks s3 (fst (backupSection E C section rotateLog s))"
    unfolding c using cleanupOldBackups_only_unlinks [of _ E C "section"]
    by (metis only_unlinks_console_log(2))
  then obtain us where "effects (fst (backupSection E C section rotateLog s)) = effects s3 @ us"
    and "\<forall>e \<in> set us. \<exists>n. e = Unlinked BackupDir n"
    by (auto simp: only_unlinks_def)
  then show "\<exists>us. effects (fst (backupSection E C section rotateLog s))
                = effects s @ Wrote BackupDir p
                    # (if rotateLog then [Wrote SectionsDir (section @ ''.txt'')] else []) @ us
              \<and> (\<forall>e \<in> set us. \<exists>n. e = Unlinked BackupDir n)"
    using e3 by auto
  show "sectionsDir (fst (backupSection E C section rotateLog s)) = sectionsDir s" if "\<not> rotateLog"
    using ou r w'(4) that by (auto simp: only_unlinks_def)
qed


text \<open>
  C7: \<open>backupSection\<close> returns \<open>null\<close>, with a line on the console, when the section has
  no log file (then nothing else happens) and, for a section that has one, exactly when
  one of its own file system calls fails: reading the log, writing the artifact (also for
  want of a backup directory) or, when rotating, truncating the log; the failures of
  the cleanup that follows are caught there. Whenever it returns \<open>null\<close> the sections
  directory is as before. In every run, if the log file is written at all, the calls that
  changed the file system begin with the write of the artifact, followed at once by that
  truncation: the log is truncated only after the artifact was written.
\<close>

theorem backupSection_null_and_order:
  "(\<not> existsSync_s s (section @ ''.txt'') \<longrightarrow>
      backupSection E C section rotateLog s
        = (console_log (Out (''no log file found for section: '' @ section)) s, None))
   \<and> (existsSync_s s (section @ ''.txt'') \<longrightarrow>
        (snd (backupSection E C section rotateLog s) = None) =
          (faulty E (ReadFile SectionsDir (section @ ''.txt''))
           \<or> faulty E (WriteFile BackupDir
                 (section @ ''-'' @ timestamp_of E (clock E (ticks s)) @ backupExtension C
                  @ (if useCompression C then ''.gz'' else [])))
           \<or> backupDir s = None
           \<or> (rotateLog \<and> faulty E (WriteFile SectionsDir (section @ ''.txt'')))))
   \<and> (existsSync_s s (section @ ''.txt'') \<longrightarrow>
        snd (backupSection E C section rotateLog s) = None \<longrightarrow>
        console (fst (backupSection E C section rotateLog s))
          = console s @ [Err (''error creating backup for section '' @ section @ '':'')])
   \<and> (snd (backupSection E C section rotateLog s) = None \<longrightarrow>
        sectionsDir (fst (backupSection E C section rotateLog s)) = sectionsDir s)
   \<and> (\<exists>es. effects (fst (backupSection E C section rotateLog s)) = effects s @ es
          \<and> (Wrote SectionsDir (section @ ''.txt'') \<in> set es \<longrightarrow>
               (\<exists>us. es = Wrote BackupDir
                            (section @ ''-'' @ timestamp_of E (clock E (ticks s))
                             @ backupExtension C @ (if useCompression C then ''.gz'' else []))
                          # Wrote SectionsDir (section @ ''.txt'') # us)))
   \<and> (sectionsDir (fst (backupSection E C section rotateLog s)) \<noteq> sectionsDir s \<longrightarrow>
        (\<exists>us. effects (fst (backupSection E C section rotateLog s))
               = effects s @ Wrote BackupDir
                   (section @ ''-'' @ timestamp_of E (clock E (ticks s))
                    @ backupExtension C @ (if useCompression C then ''.gz'' else []))
                 # Wrote SectionsDir (section @ ''.txt'') # us))"
proof -
  let ?R = "backupSection E C section rotateLog s"
  let ?log = "section @ ''.txt''"
  let ?p = "section @ ''-'' @ timestamp_of E (clock E (ticks s)) @ backupExtension C
            @ (if useCompression C then ''.gz'' else [])"
  have c5: "\<exists>es. effects (fst ?R) = effects s @ es
          \<and> (Wrote SectionsDir ?log \<in> set es \<longrightarrow>
               (\<exists>us. es = Wrote BackupDir ?p # Wrote SectionsDir ?log # us))"
  proof (cases "snd ?R")
    case None
    from backupSection_None_frame(2) [OF None] show ?thesis
      by (auto intro: exI [of _ "[]"] exI [of _ "[Wrote BackupDir ?p]"])
  next
    case (Some p')
    from backupSection_Some_effects(1,2) [OF Some] obtain us where
      "p' = ?p" and "effects (fst ?R)
          = effects s @ Wrote BackupDir p'
              # (if rotateLog then [Wrote SectionsDir ?log] else []) @ us"
      and "\<forall>e \<in> set us. \<exists>n. e = Unlinked BackupDir n"
      by blast
    then show ?thesis
      by (intro exI [of _ "Wrote BackupDir ?p # (if rotateLog then [Wrote SectionsDir ?log] else []) @ us"])
         auto
  qed
  have c6: "\<exists>us. effects (fst ?R) = effects s @ Wrote BackupDir ?p # Wrote SectionsDir ?log # us"
    if ch: "sectionsDir (fst ?R) \<noteq> sectionsDir s"
  proof (cases "snd ?R")
    case None
    from backupSection_None_frame(1) [OF None] ch show ?thesis by simp
  next
    case (Some p')
    have rl: rotateLog
    proof (rule ccontr)
      assume "\<not> rotateLog"
      from backupSection_Some_effects(3) [OF Some this] ch show False by simp
    qed
    from backupSection_Some_effects(1,2) [OF Some] rl show ?thesis by auto
  qed
  show ?thesis
    using backupSection_missing [of s "section" E C rotateLog]
      backupSection_None_iff [of s "section" E C rotateLog]
      backupSection_None_frame(1,3) [of E C "section" rotateLog s]
      c5 c6
    by blast
qed

theorem backupSection_null_and_order_witness:
  "snd (backupSection sample_env backupConfig ''base'' True no_backups_fs) = None
   \<and> sectionsDir (fst (backupSection sample_env backupConfig ''base'' True no_backups_fs))
       = sectionsDir no_backups_fs"
proof -
  have "existsSync_s no_backups_fs (''base'' @ ''.txt'')"
    by (simp add: existsSync_s_def file_s_def no_backups_fs_def)
  moreover have "backupDir no_backups_fs = None"
    by (simp add: no_backups_fs_def)
  ultimately show ?thesis
    using backupSection_null_and_order [of no_backups_fs "''base''" sample_env backupConfig True]
    by blast
qed

section \<open>Restoring without overwriting\<close>

lemma restore_sections_keeps:
  "file_s s n \<noteq> None \<Longrightarrow>
   file_s (fst (restore_sections E False xs k s)) n = file_s s n"
proof (induction xs arbitrary: s k)
  case Nil
  then show ?case by simp
next
  case (Cons x xs)
  obtain sec c where x: "x = (sec, c)" by (cases x)
  show ?case
  proof (cases "existsSync_s s (sec @ ''.txt'')")
    case True
    then show ?thesis using Cons x by simp
  next
    case False
    show ?thesis
    proof (cases "writeFileSync_s E (sec @ ''.txt'') c s")
      case None
      then show ?thesis using False x by simp
    next
      case (Some s1)
      from False Cons.prems have ne: "n \<noteq> sec @ ''.txt''"
        by (auto simp: existsSync_s_def)
      then have f: "file_s s1 n = file_s s n"
        using writeFileSync_s_Some(1) [OF Some] by simp
      with Cons.prems have "file_s s1 n \<noteq> None" by simp
      from Cons.IH [OF this] f show ?thesis using False Some x by simp
    qed
  qed
qed

lemma restoreSectionBackup_keeps:
  "file_s s n \<noteq> None \<Longrightarrow>
   file_s (fst (restoreSectionBackup E sec content False s)) n = file_s s n"
  by (auto simp: restoreSectionBackup_def Let_def existsSync_s_def
        dest!: writeFileSync_s_Some(1) split: option.splits)

lemma restoreFullBackup_keeps:
  assumes "file_s s n \<noteq> None"
  shows "file_s (fst (restoreFullBackup E d False s)) n = file_s s n"
proof -
  have "sectionsDir s \<noteq> None"
  proof
    assume "sectionsDir s = None"
    from file_s_None_dir [OF this, of n] assms show False by simp
  qed
  then obtain dd where dir: "sectionsDir s = Some dd" by auto
  have k: "file_s (fst (restore_sections E False (bd_sections d) 0 s2)) n = file_s s n"
    if "file_s s2 n = file_s s n" for s2
    using restore_sections_keeps [of s2 n E "bd_sections d" 0] that assms by simp
  show ?thesis
  proof (cases "bd_metadata d")
    case None
    then show ?thesis
      using k [of s] by (simp add: restoreFullBackup_def dir case_prod_beta split: option.splits)
  next
    case (Some m)
    show ?thesis
    proof (cases "existsSync_s s metadataFile")
      case True
      then show ?thesis
        using k [of "console_log (Out ''skipping metadata restoration (file exists)'') s"] Some
        by (simp add: restoreFullBackup_def dir case_prod_beta split: option.splits)
    next
      case False
      with assms have ne: "n \<noteq> metadataFile" by (auto simp: existsSync_s_def)
      show ?thesis
      proof (cases "writeFileSync_s E metadataFile (JSON_stringify_metadata E m) s")
        case None
        then show ?thesis
          using Some False by (simp add: restoreFullBackup_def dir)
      next
        case (Some s1)
        from writeFileSync_s_Some(1) [OF Some] ne have "file_s s1 n = file_s s n" by simp
        then show ?thesis
          using k [of "console_log (Out ''metadata restored'') s1"] Some False \<open>bd_metadata d = Some m\<close>
          by (simp add: restoreFullBackup_def dir case_prod_beta split: option.splits)
      qed
    qed
  qed
qed

lemma restoreFromBackup_keeps:
  assumes "file_s s n \<noteq> None"
  shows "file_s (fst (restoreFromBackup E C backupPath section False s)) n = file_s s n"
  using restoreFullBackup_keeps [OF assms] restoreSectionBackup_keeps [OF assms]
  by (auto simp: restoreFromBackup_def split: option.splits)

lemma restoreFromBackup_skip:
  assumes "existsSync_b s p" and "read_backup E s p = Some content"
    and "\<not> startsWith p (fullBackupPrefix C)" and "sec \<noteq> []"
    and "existsSync_s s (sec @ ''.txt'')"
  shows "restoreFromBackup E C (Some p) (Some sec) False s
         = (console_log (Out (''skipping section '' @ sec @ '' (file exists)'')) s, False)"
  using assms by (simp add: restoreFromBackup_def restoreSectionBackup_def)


text \<open>
  C8: when a section backup (an artifact that exists, can be read and whose name does not
  begin with the full-backup prefix, restored with a section id) is restored with
  \<open>overwrite = false\<close> and the section's file exists, \<open>restoreFromBackup\<close> changes
  nothing but the console, where it prints the line of the skip with \<open>console.log\<close>, no
  error line; it returns \<open>false\<close>. Whatever the artifact and the section id, a restore
  with \<open>overwrite = false\<close> leaves the content of every existing file of the sections
  directory as it is, so a restore changes the content of an existing file only when
  \<open>overwrite\<close> is true.
\<close>

theorem restoreFromBackup_no_overwrite:
  "(existsSync_b s p \<and> read_backup E s p = Some content
      \<and> \<not> startsWith p (fullBackupPrefix C) \<and> sec \<noteq> []
      \<and> existsSync_s s (sec @ ''.txt'') \<longrightarrow>
      restoreFromBackup E C (Some p) (Some sec) False s
        = (console_log (Out (''skipping section '' @ sec @ '' (file exists)'')) s, False))
   \<and> (file_s s n \<noteq> None \<longrightarrow>
        file_s (fst (restoreFromBackup E C backupPath section False s)) n = file_s s n)
   \<and> (file_s (fst (restoreFromBackup E C backupPath section overwrite s)) n \<noteq> file_s s n \<longrightarrow>
        overwrite \<or> file_s s n = None)"
  using restoreFromBackup_skip [of s p E content C sec]
    restoreFromBackup_keeps [of s n E C backupPath "section"]
  by (cases overwrite; cases "file_s s n") auto

theorem restoreFromBackup_no_overwrite_witness:
  "restoreFromBackup sample_env backupConfig (Some ''base-2026-11-01T10-00-00-000Z.bak.gz'')
     (Some ''base'') False restore_fs
   = (console_log (Out ''skipping section base (file exists)'') restore_fs, False)
   \<and> file_s (fst (restoreFromBackup sample_env backupConfig
                  (Some ''base-2026-11-01T10-00-00-000Z.bak.gz'') (Some ''base'') False restore_fs))
        ''base.txt''
     = Some (''11/2/2026, 20:43:10 new'' @ [CHR 0x0A])"
proof -
  have 1: "existsSync_b restore_fs ''base-2026-11-01T10-00-00-000Z.bak.gz''"
    by (simp add: existsSync_b_def file_b_def restore_fs_def)
  have 2: "read_backup sample_env restore_fs ''base-2026-11-01T10-00-00-000Z.bak.gz''
             = Some (''11/1/2026, 09:59:30 old'' @ [CHR 0x0A])"
    by (simp add: read_backup_def endsWith_def readFileSync_b_def file_b_def restore_fs_def
          sample_env_def)
  have 3: "\<not> startsWith ''base-2026-11-01T10-00-00-000Z.bak.gz'' (fullBackupPrefix backupConfig)"
    by (simp add: startsWith_def backupConfig_def)
  have 4: "existsSync_s restore_fs (''base'' @ ''.txt'')"
    and 5: "file_s restore_fs ''base.txt'' = Some (''11/2/2026, 20:43:10 new'' @ [CHR 0x0A])"
    by (simp_all add: existsSync_s_def file_s_def restore_fs_def)
  from restoreFromBackup_no_overwrite
    [of restore_fs "''base-2026-11-01T10-00-00-000Z.bak.gz''" sample_env
        "''11/1/2026, 09:59:30 old'' @ [CHR 0x0A]" backupConfig "''base''" "''base.txt''"
        "Some ''base-2026-11-01T10-00-00-000Z.bak.gz''" "Some ''base''" False]
    1 2 3 4 5
  show ?thesis by simp
qed

section \<open>Restoring a full backup\<close>

lemma restore_sections_merge:
  assumes "distinct (map fst xs)" and "restore_sections E ow xs k s = (s', Some k')"
  shows "(\<forall>(sec, c) \<in> set xs.
            file_s s' (sec @ ''.txt'')
              = (if ow \<or> file_s s (sec @ ''.txt'') = None then Some c
                 else file_s s (sec @ ''.txt'')))
       \<and> (\<forall>n. n \<notin> (\<lambda>(sec, c). sec @ ''.txt'') ` set xs \<longrightarrow> file_s s' n = file_s s n)
       \<and> k' = k + length (filter (\<lambda>(sec, c). ow \<or> file_s s (sec @ ''.txt'') = None) xs)
       \<and> effects s' = effects s
            @ map (\<lambda>(sec, c). Wrote SectionsDir (sec @ ''.txt''))
                (filter (\<lambda>(sec, c). ow \<or> file_s s (sec @ ''.txt'') = None) xs)
       \<and> console s' = console s
            @ map (\<lambda>(sec, c). Out (''skipping section '' @ sec @ '' (file exists)''))
                (filter (\<lambda>(sec, c). \<not> (ow \<or> file_s s (sec @ ''.txt'') = None)) xs)
       \<and> backupDir s' = backupDir s"
  using assms
proof (induction xs arbitrary: s k)
  case Nil
  then show ?case by simp
next
  case (Cons x xs)
  obtain sec c where x: "x = (sec, c)" by (cases x)
  from Cons.prems(1) x have dx: "distinct (map fst xs)" and fresh: "sec \<notin> fst ` set xs"
    by auto
  have other: "sec' @ ''.txt'' \<noteq> sec @ ''.txt''" if "(sec', c') \<in> set xs" for sec' c'
    using fresh that by force
  show ?case
  proof (cases "ow \<or> file_s s (sec @ ''.txt'') = None")
    case True
    then have w: "ow \<or> \<not> existsSync_s s (sec @ ''.txt'')" by (simp add: existsSync_s_def)
    from Cons.prems(2) x w obtain s1 where
      s1: "writeFileSync_s E (sec @ ''.txt'') c s = Some s1"
      and rest: "restore_sections E ow xs (Suc k) s1 = (s', Some k')"
      by (cases "writeFileSync_s E (sec @ ''.txt'') c s") auto
    note u = writeFileSync_s_Some [OF s1]
    have same: "file_s s1 (sec' @ ''.txt'') = file_s s (sec' @ ''.txt'')"
      if "(sec', c') \<in> set xs" for sec' c'
      using other [OF that] u(1) by simp
    have fw: "filter (\<lambda>(sec, c). ow \<or> file_s s1 (sec @ ''.txt'') = None) xs
              = filter (\<lambda>(sec, c). ow \<or> file_s s (sec @ ''.txt'') = None) xs"
      by (rule filter_cong) (auto simp: same)
    have fn: "filter (\<lambda>(sec, c). \<not> (ow \<or> file_s s1 (sec @ ''.txt'') = None)) xs
              = filter (\<lambda>(sec, c). \<not> (ow \<or> file_s s (sec @ ''.txt'') = None)) xs"
      by (rule filter_cong) (auto simp: same)
    note ih = Cons.IH [OF dx rest, unfolded fw fn]
    have a: "file_s s' (sec @ ''.txt'') = Some c"
    proof -
      have "sec @ ''.txt'' \<notin> (\<lambda>(sec, c). sec @ ''.txt'') ` set xs"
        using other by force
      with ih have "file_s s' (sec @ ''.txt'') = file_s s1 (sec @ ''.txt'')" by blast
      then show ?thesis using u(1) by simp
    qed
    have b: "file_s s' (sec' @ ''.txt'')
              = (if ow \<or> file_s s (sec' @ ''.txt'') = None then Some c'
                 else file_s s (sec' @ ''.txt''))" if "(sec', c') \<in> set xs" for sec' c'
      using ih that same [OF that] by force
    have c: "file_s s' n = file_s s n"
      if "n \<notin> (\<lambda>(sec, c). sec @ ''.txt'') ` set (x # xs)" for n
    proof -
      from that x have "n \<noteq> sec @ ''.txt''" and "n \<notin> (\<lambda>(sec, c). sec @ ''.txt'') ` set xs"
        by auto
      with ih u(1) show ?thesis by simp
    qed
    show ?thesis
      using a b c ih True x u(4,6,7) by (auto simp del: fun_upd_apply)
  next
    case False
    then have w: "\<not> (ow \<or> \<not> existsSync_s s (sec @ ''.txt''))" by (simp add: existsSync_s_def)
    let ?s1 = "console_log (Out (''skipping section '' @ sec @ '' (file exists)'')) s"
    from Cons.prems(2) x w have rest: "restore_sections E ow xs k ?s1 = (s', Some k')"
      by simp
    note ih = Cons.IH [OF dx rest, simplified]
    have a: "file_s s' (sec @ ''.txt'') = file_s s (sec @ ''.txt'')"
    proof -
      have "sec @ ''.txt'' \<notin> (\<lambda>(sec, c). sec @ ''.txt'') ` set xs"
        using other by force
      with ih show ?thesis by blast
    qed
    show ?thesis
      using a ih False x by auto
  qed
qed


lemma restoreFullBackup_pre:
  assumes "(if sectionsDir s = None then mkdirSync_s E s else Some s) = Some s1"
    and "(case bd_metadata d of
            None \<Rightarrow> Some s1
          | Some metadata \<Rightarrow>
              if ow \<or> \<not> existsSync_s s1 metadataFile then
                map_option (console_log (Out ''metadata restored''))
                  (writeFileSync_s E metadataFile (JSON_stringify_metadata E metadata) s1)
              else Some (console_log (Out ''skipping metadata restoration (file exists)'') s1))
         = Some s2"
  shows "\<forall>n. n \<noteq> metadataFile \<longrightarrow> file_s s2 n = file_s s n"
    and "file_s s2 metadataFile = file_s s metadataFile
         \<or> (\<exists>m. bd_metadata d = Some m \<and> (ow \<or> file_s s metadataFile = None)
                \<and> file_s s2 metadataFile = Some (JSON_stringify_metadata E m))"
    and "\<exists>pre. effects s2 = effects s @ pre
               \<and> set pre \<subseteq> {MadeDir SectionsDir, Wrote SectionsDir metadataFile}"
    and "backupDir s2 = backupDir s"
proof -
  have 1: "file_s s1 = file_s s" "backupDir s1 = backupDir s"
    "effects s1 = effects s \<or> effects s1 = effects s @ [MadeDir SectionsDir]"
    using assms(1)
    by (auto split: if_splits dest: mkdirSync_s_Some simp: file_s_None_dir fun_eq_iff)
  have 2: "(\<forall>n. n \<noteq> metadataFile \<longrightarrow> file_s s2 n = file_s s1 n)
     \<and> (file_s s2 metadataFile = file_s s1 metadataFile
         \<or> (\<exists>m. bd_metadata d = Some m \<and> (ow \<or> file_s s1 metadataFile = None)
                \<and> file_s s2 metadataFile = Some (JSON_stringify_metadata E m)))
     \<and> (effects s2 = effects s1 \<or> effects s2 = effects s1 @ [Wrote SectionsDir metadataFile])
     \<and> backupDir s2 = backupDir s1"
    using assms(2)
    by (cases "bd_metadata d")
       (auto split: if_splits simp: existsSync_s_def writeFileSync_s_Some(1,4,7))
  show "\<forall>n. n \<noteq> metadataFile \<longrightarrow> file_s s2 n = file_s s n" using 1 2 by simp
  show "file_s s2 metadataFile = file_s s metadataFile
         \<or> (\<exists>m. bd_metadata d = Some m \<and> (ow \<or> file_s s metadataFile = None)
                \<and> file_s s2 metadataFile = Some (JSON_stringify_metadata E m))"
    using 1 2 by simp
  show "backupDir s2 = backupDir s" using 1 2 by simp
  show "\<exists>pre. effects s2 = effects s @ pre
               \<and> set pre \<subseteq> {MadeDir SectionsDir, Wrote SectionsDir metadataFile}"
  proof -
    from 1(3) 2 have "effects s2 = effects s @ [] \<or> effects s2 = effects s @ [MadeDir SectionsDir]
       \<or> effects s2 = effects s @ [Wrote SectionsDir metadataFile]
       \<or> effects s2 = effects s @ [MadeDir SectionsDir, Wrote SectionsDir metadataFile]"
      by auto
    then show ?thesis
      by (elim disjE) (rule exI, rule conjI, assumption, simp)+
  qed
qed


lemma restoreFullBackup_True:
  assumes "snd (restoreFullBackup E d ow s) = True"
  shows "\<exists>s1 s2 s3 k.
           (if sectionsDir s = None then mkdirSync_s E s else Some s) = Some s1
         \<and> (case bd_metadata d of
               None \<Rightarrow> Some s1
             | Some metadata \<Rightarrow>
                 if ow \<or> \<not> existsSync_s s1 metadataFile then
                   map_option (console_log (Out ''metadata restored''))
                     (writeFileSync_s E metadataFile (JSON_stringify_metadata E metadata) s1)
                 else Some (console_log (Out ''skipping metadata restoration (file exists)'') s1))
              = Some s2
         \<and> restore_sections E ow (bd_sections d) 0 s2 = (s3, Some k)
         \<and> fst (restoreFullBackup E d ow s)
             = console_log
                 (Out (''restored '' @ decimal k @ '' of ''
                       @ decimal (length (bd_sections d)) @ '' sections'')) s3"
proof -
  define step1 where "step1 = (if sectionsDir s = None then mkdirSync_s E s else Some s)"
  define step2 where "step2 = (\<lambda>s1. case bd_metadata d of
               None \<Rightarrow> Some s1
             | Some metadata \<Rightarrow>
                 if ow \<or> \<not> existsSync_s s1 metadataFile then
                   map_option (console_log (Out ''metadata restored''))
                     (writeFileSync_s E metadataFile (JSON_stringify_metadata E metadata) s1)
                 else Some (console_log (Out ''skipping metadata restoration (file exists)'') s1))"
  have def: "restoreFullBackup E d ow s =
     (case step1 of
        None \<Rightarrow> (console_log (Err ''error restoring full backup:'') s, False)
      | Some s1 \<Rightarrow>
          (case step2 s1 of
             None \<Rightarrow> (console_log (Err ''error restoring full backup:'') s1, False)
           | Some s2 \<Rightarrow>
               (case restore_sections E ow (bd_sections d) 0 s2 of
                  (s3, None) \<Rightarrow> (console_log (Err ''error restoring full backup:'') s3, False)
                | (s3, Some successCount) \<Rightarrow>
                    (console_log
                       (Out (''restored '' @ decimal successCount @ '' of ''
                             @ decimal (length (bd_sections d)) @ '' sections'')) s3,
                     True))))"
    unfolding restoreFullBackup_def step1_def step2_def Let_def ..
  from assms obtain s1 where 1: "step1 = Some s1"
    unfolding def by (cases step1) auto
  from assms 1 obtain s2 where 2: "step2 s1 = Some s2"
    unfolding def by (cases "step2 s1") auto
  obtain s3 r where 3: "restore_sections E ow (bd_sections d) 0 s2 = (s3, r)"
    by (cases "restore_sections E ow (bd_sections d) 0 s2")
  from assms 1 2 3 obtain k where 4: "r = Some k"
    unfolding def by (cases r) auto
  have "fst (restoreFullBackup E d ow s)
             = console_log
                 (Out (''restored '' @ decimal k @ '' of ''
                       @ decimal (length (bd_sections d)) @ '' sections'')) s3"
    unfolding def using 1 2 3 4 by simp
  with 1 2 3 4 show ?thesis
    unfolding step1_def step2_def by blast
qed


text \<open>
  C4: restoring a full backup merges item by item. When \<open>restoreFullBackup\<close> returns
  \<open>true\<close> on a payload whose section ids are distinct (the keys of an object are), then
  for each section of the payload the run writes the section's file if and only if
  \<open>overwrite\<close> is true or the file did not exist, and the file then holds the content of
  the payload, and otherwise what it held; every file that existed still exists, no file
  is deleted, and a file that is neither the sidecar nor the file of a section of the
  payload is unchanged; the last line printed is \<open>restored N of M sections\<close>, with \<open>M\<close>
  the number of sections of the payload and \<open>N\<close> the number of those written.
\<close>

theorem restoreFullBackup_merge:
  assumes "distinct (map fst (bd_sections d))"
    and "restoreFullBackup E d overwrite s = (s', True)"
  shows "(\<forall>(sec, c) \<in> set (bd_sections d).
            (Wrote SectionsDir (sec @ ''.txt'') \<in> set (drop (length (effects s)) (effects s'))
               \<longleftrightarrow> overwrite \<or> file_s s (sec @ ''.txt'') = None)
          \<and> file_s s' (sec @ ''.txt'')
              = (if overwrite \<or> file_s s (sec @ ''.txt'') = None then Some c
                 else file_s s (sec @ ''.txt'')))
       \<and> (\<forall>n. file_s s n \<noteq> None \<longrightarrow> file_s s' n \<noteq> None)
       \<and> (\<forall>n. n \<noteq> metadataFile \<and> n \<notin> (\<lambda>(sec, c). sec @ ''.txt'') ` set (bd_sections d)
              \<longrightarrow> file_s s' n = file_s s n)
       \<and> (\<forall>e \<in> set (drop (length (effects s)) (effects s')). \<forall>dr n. e \<noteq> Unlinked dr n)
       \<and> last (console s')
           = Out (''restored ''
                  @ decimal (length (filter (\<lambda>(sec, c). overwrite \<or> file_s s (sec @ ''.txt'') = None)
                                       (bd_sections d)))
                  @ '' of '' @ decimal (length (bd_sections d)) @ '' sections'')"
proof -
  let ?xs = "bd_sections d"
  let ?P = "\<lambda>(sec, c). overwrite \<or> file_s s (sec @ ''.txt'') = None"
  from assms(2) have "snd (restoreFullBackup E d overwrite s) = True" by simp
  from restoreFullBackup_True [OF this] assms(2) obtain s1 s2 s3 k where
    1: "(if sectionsDir s = None then mkdirSync_s E s else Some s) = Some s1"
    and 2: "(case bd_metadata d of
               None \<Rightarrow> Some s1
             | Some metadata \<Rightarrow>
                 if overwrite \<or> \<not> existsSync_s s1 metadataFile then
                   map_option (console_log (Out ''metadata restored''))
                     (writeFileSync_s E metadataFile (JSON_stringify_metadata E metadata) s1)
                 else Some (console_log (Out ''skipping metadata restoration (file exists)'') s1))
              = Some s2"
    and 3: "restore_sections E overwrite ?xs 0 s2 = (s3, Some k)"
    and 4: "s' = console_log
                 (Out (''restored '' @ decimal k @ '' of ''
                       @ decimal (length ?xs) @ '' sections'')) s3"
    by auto
  note pre = restoreFullBackup_pre [OF 1 2]
  have same: "file_s s2 (sec @ ''.txt'') = file_s s (sec @ ''.txt'')" for sec
    using pre(1) by simp
  have fw: "filter (\<lambda>(sec, c). overwrite \<or> file_s s2 (sec @ ''.txt'') = None) ?xs = filter ?P ?xs"
    by (rule filter_cong) (auto simp: same)
  note m = restore_sections_merge [OF assms(1) 3, unfolded fw same, simplified]
  from pre(3) obtain pr where pr: "effects s2 = effects s @ pr"
    "set pr \<subseteq> {MadeDir SectionsDir, Wrote SectionsDir metadataFile}" by blast
  have eff: "drop (length (effects s)) (effects s')
             = pr @ map (\<lambda>(sec, c). Wrote SectionsDir (sec @ ''.txt'')) (filter ?P ?xs)"
    using m pr(1) 4 by simp
  have a: "Wrote SectionsDir (sec @ ''.txt'') \<in> set (drop (length (effects s)) (effects s'))
               \<longleftrightarrow> overwrite \<or> file_s s (sec @ ''.txt'') = None"
    if "(sec, c) \<in> set ?xs" for sec c
  proof -
    have "Wrote SectionsDir (sec @ ''.txt'') \<notin> set pr" using pr(2) by auto
    moreover have "Wrote SectionsDir (sec @ ''.txt'')
                     \<in> set (map (\<lambda>(sec, c). Wrote SectionsDir (sec @ ''.txt'')) (filter ?P ?xs))
                   \<longleftrightarrow> overwrite \<or> file_s s (sec @ ''.txt'') = None"
      using that by force
    ultimately show ?thesis unfolding eff by simp
  qed
  have b: "file_s s' (sec @ ''.txt'')
              = (if overwrite \<or> file_s s (sec @ ''.txt'') = None then Some c
                 else file_s s (sec @ ''.txt''))" if "(sec, c) \<in> set ?xs" for sec c
    using m that 4 by force
  have c: "file_s s' n = file_s s n"
    if "n \<noteq> metadataFile" "n \<notin> (\<lambda>(sec, c). sec @ ''.txt'') ` set ?xs" for n
    using m that 4 pre(1) by simp
  have d: "file_s s' n \<noteq> None" if "file_s s n \<noteq> None" for n
  proof (cases "n = metadataFile")
    case True
    then have "n \<notin> (\<lambda>(sec, c). sec @ ''.txt'') ` set ?xs" by auto
    with m 4 have "file_s s' n = file_s s2 n" by simp
    with pre(2) that True show ?thesis by auto
  next
    case False
    show ?thesis
    proof (cases "n \<in> (\<lambda>(sec, c). sec @ ''.txt'') ` set ?xs")
      case True
      then obtain sec c where "(sec, c) \<in> set ?xs" "n = sec @ ''.txt''" by auto
      with b [of sec c] that show ?thesis by auto
    next
      case False
      with c \<open>n \<noteq> metadataFile\<close> that show ?thesis by simp
    qed
  qed
  have e: "\<forall>e \<in> set (drop (length (effects s)) (effects s')). \<forall>dr n. e \<noteq> Unlinked dr n"
    unfolding eff using pr(2) by auto
  have f: "last (console s')
           = Out (''restored '' @ decimal (length (filter ?P ?xs))
                  @ '' of '' @ decimal (length ?xs) @ '' sections'')"
    using m 4 by simp
  have ab: "\<forall>(sec, c) \<in> set ?xs.
            (Wrote SectionsDir (sec @ ''.txt'') \<in> set (drop (length (effects s)) (effects s'))
               \<longleftrightarrow> overwrite \<or> file_s s (sec @ ''.txt'') = None)
          \<and> file_s s' (sec @ ''.txt'')
              = (if overwrite \<or> file_s s (sec @ ''.txt'') = None then Some c
                 else file_s s (sec @ ''.txt''))"
  proof (rule ballI)
    fix x assume x: "x \<in> set ?xs"
    obtain sec c where "x = (sec, c)" by (cases x)
    with x a [of sec c] b [of sec c]
    show "case x of (sec, c) \<Rightarrow>
            (Wrote SectionsDir (sec @ ''.txt'') \<in> set (drop (length (effects s)) (effects s'))
               \<longleftrightarrow> overwrite \<or> file_s s (sec @ ''.txt'') = None)
          \<and> file_s s' (sec @ ''.txt'')
              = (if overwrite \<or> file_s s (sec @ ''.txt'') = None then Some c
                 else file_s s (sec @ ''.txt''))"
      by simp
  qed
  have d': "\<forall>n. file_s s n \<noteq> None \<longrightarrow> file_s s' n \<noteq> None"
    using d by (intro allI impI)
  have c': "\<forall>n. n \<noteq> metadataFile \<and> n \<notin> (\<lambda>(sec, c). sec @ ''.txt'') ` set ?xs
              \<longrightarrow> file_s s' n = file_s s n"
  proof (intro allI impI)
    fix n assume "n \<noteq> metadataFile \<and> n \<notin> (\<lambda>(sec, c). sec @ ''.txt'') ` set ?xs"
    then have "n \<noteq> metadataFile" and "n \<notin> (\<lambda>(sec, c). sec @ ''.txt'') ` set ?xs"
      by (rule conjunct1, rule conjunct2)
    then show "file_s s' n = file_s s n" by (rule c)
  qed
  show ?thesis
    by (rule conjI [OF ab conjI [OF d' conjI [OF c' conjI [OF e f]]]])
qed


theorem restoreFullBackup_merge_witness:
  "snd (restoreFullBackup sample_env merge_data False merge_fs) = True
   \<and> file_s (fst (restoreFullBackup sample_env merge_data False merge_fs)) ''a.txt'' = Some ''disk a''
   \<and> file_s (fst (restoreFullBackup sample_env merge_data False merge_fs)) ''b.txt'' = Some ''disk b''
   \<and> file_s (fst (restoreFullBackup sample_env merge_data False merge_fs)) ''c.txt'' = Some ''saved c''
   \<and> file_s (fst (restoreFullBackup sample_env merge_data False merge_fs)) ''d.txt'' = Some ''disk d''
   \<and> Wrote SectionsDir ''c.txt'' \<in> set (effects (fst (restoreFullBackup sample_env merge_data False merge_fs)))
   \<and> Wrote SectionsDir ''a.txt'' \<notin> set (effects (fst (restoreFullBackup sample_env merge_data False merge_fs)))
   \<and> Wrote SectionsDir ''b.txt'' \<notin> set (effects (fst (restoreFullBackup sample_env merge_data False merge_fs)))
   \<and> last (console (fst (restoreFullBackup sample_env merge_data False merge_fs)))
       = Out ''restored 1 of 3 sections''"
proof -
  let ?s' = "fst (restoreFullBackup sample_env merge_data False merge_fs)"
  have 0: "snd (restoreFullBackup sample_env merge_data False merge_fs) = True"
    by (simp add: restoreFullBackup_def merge_data_def merge_fs_def sample_env_def
          existsSync_s_def file_s_def writeFileSync_s_def put_def console_log_def Let_def)
  then have 1: "restoreFullBackup sample_env merge_data False merge_fs = (?s', True)"
    by (simp add: prod_eq_iff)
  have 2: "distinct (map fst (bd_sections merge_data))" by (simp add: merge_data_def)
  have f: "file_s merge_fs ''a.txt'' = Some ''disk a''" "file_s merge_fs ''b.txt'' = Some ''disk b''"
    "file_s merge_fs ''c.txt'' = None" "file_s merge_fs ''d.txt'' = Some ''disk d''"
    by (simp_all add: file_s_def merge_fs_def)
  have e: "effects merge_fs = []" by (simp add: merge_fs_def)
  have x: "bd_sections merge_data = [(''a'', ''saved a''), (''b'', ''saved b''), (''c'', ''saved c'')]"
    by (simp add: merge_data_def)
  have dec: "decimal (Suc 0) = ''1''" "decimal (Suc (Suc (Suc 0))) = ''3''"
    by (simp_all add: decimal.simps)
  from restoreFullBackup_merge [OF 2 1] 0 show ?thesis
    by (simp add: x f e dec metadataFile_def)
qed

section \<open>A section backup and its restore\<close>

lemma backupSection_keeps_sections:
  "sectionsDir (fst (backupSection E C section False s)) = sectionsDir s"
proof (cases "snd (backupSection E C section False s)")
  case None
  then show ?thesis by (rule backupSection_None_frame(1))
next
  case (Some p)
  then show ?thesis by (simp add: backupSection_Some_effects(3))
qed

lemma backupSection_keeps_files:
  "file_s (fst (backupSection E C section False s)) = file_s s"
  by (simp add: file_s_def fun_eq_iff backupSection_keeps_sections)

lemma backupSection_artifact:
  assumes "snd (backupSection E C section False s) = Some p"
  shows "\<exists>content. file_s s (section @ ''.txt'') = Some content
           \<and> (\<forall>f. file_b (fst (backupSection E C section False s)) p = Some f \<longrightarrow>
                  b_data f = (if useCompression C then Gz content else Text content))"
    and "useCompression C \<Longrightarrow> endsWith p ''.gz''"
proof -
  from backupSection_Some [OF assms] obtain content s2 s3 where
    c: "file_s s (section @ ''.txt'') = Some content"
    and p: "p = section @ ''-'' @ timestamp_of E (clock E (ticks s)) @ backupExtension C
                @ (if useCompression C then ''.gz'' else [])"
    and w: "writeFileSync_b E p (if useCompression C then Gz content else Text content)
              (snd (new_Date E s)) = Some s2"
    and r: "(if False then writeFileSync_s E (section @ ''.txt'') [] s2 else Some s2) = Some s3"
    and f: "fst (backupSection E C section False s)
             = cleanupOldBackups E C section
                 (console_log
                    (Out ((if useCompression C then ''compressed backup created: ''
                           else ''backup created: '') @ p)) s3)"
    by blast
  from r have s3: "s3 = s2" by simp
  have b2: "file_b s2 p = Some \<lparr>b_data = (if useCompression C then Gz content else Text content),
                                 b_mtime = clock E (ticks (snd (new_Date E s)))\<rparr>"
    using writeFileSync_b_Some(1) [OF w] by simp
  have "only_unlinks s2 (fst (backupSection E C section False s))"
    unfolding f s3
    using cleanupOldBackups_only_unlinks
            [of "console_log (Out ((if useCompression C then ''compressed backup created: ''
                           else ''backup created: '') @ p)) s2" E C "section"]
    by simp
  then have "file_b (fst (backupSection E C section False s)) p = None
             \<or> file_b (fst (backupSection E C section False s)) p = file_b s2 p"
    by (simp add: only_unlinks_def)
  with b2 have "\<forall>f. file_b (fst (backupSection E C section False s)) p = Some f \<longrightarrow>
                  b_data f = (if useCompression C then Gz content else Text content)"
    by auto
  with c show "\<exists>content. file_s s (section @ ''.txt'') = Some content
           \<and> (\<forall>f. file_b (fst (backupSection E C section False s)) p = Some f \<longrightarrow>
                  b_data f = (if useCompression C then Gz content else Text content))"
    by blast
  show "endsWith p ''.gz''" if "useCompression C"
    using that p by (simp add: endsWith_def)
qed

lemma read_backup_artifact:
  assumes "snd (backupSection E C section False s) = Some p"
    and "file_s s (section @ ''.txt'') = Some content"
    and "read_backup E (fst (backupSection E C section False s)) p = Some c"
  shows "c = content"
proof -
  let ?s1 = "fst (backupSection E C section False s)"
  from backupSection_artifact(1) [OF assms(1)] assms(2)
  have d: "\<forall>f. file_b ?s1 p = Some f \<longrightarrow>
                  b_data f = (if useCompression C then Gz content else Text content)"
    by simp
  from assms(3) obtain f where f: "file_b ?s1 p = Some f"
    by (cases "file_b ?s1 p")
       (auto simp: read_backup_def readFileSync_b_def split: if_splits)
  with d have bd: "b_data f = (if useCompression C then Gz content else Text content)" by simp
  show ?thesis
  proof (cases "useCompression C")
    case True
    with backupSection_artifact(2) [OF assms(1)] have "endsWith p ''.gz''" by simp
    with assms(3) f bd True show ?thesis
      by (auto simp: read_backup_def readFileSync_b_def split: if_splits)
  next
    case False
    with assms(3) f bd show ?thesis
      by (auto simp: read_backup_def readFileSync_b_def split: if_splits)
  qed
qed

lemma restoreSectionBackup_same:
  assumes "file_s s (section @ ''.txt'') = Some content"
  shows "file_s (fst (restoreSectionBackup E section content ow s)) = file_s s"
proof (cases "writeFileSync_s E (section @ ''.txt'') content s")
  case None
  then show ?thesis by (simp add: restoreSectionBackup_def Let_def)
next
  case (Some s1)
  from writeFileSync_s_Some(1) [OF Some] assms have "file_s s1 = file_s s"
    by (auto simp: fun_eq_iff)
  with Some show ?thesis by (simp add: restoreSectionBackup_def Let_def)
qed

lemma backupSection_restore_section:
  assumes "\<forall>p. snd (backupSection E C section False s) = Some p
                \<longrightarrow> \<not> startsWith p (fullBackupPrefix C)"
  shows "file_s (fst (restoreFromBackup E C (snd (backupSection E C section False s))
                        (Some section) True (fst (backupSection E C section False s))))
         = file_s s"
proof (cases "snd (backupSection E C section False s)")
  case None
  then show ?thesis by (simp add: restoreFromBackup_def backupSection_keeps_files)
next
  case (Some p)
  let ?s1 = "fst (backupSection E C section False s)"
  from assms Some have np: "\<not> startsWith p (fullBackupPrefix C)" by simp
  from backupSection_artifact(1) [OF Some] obtain content where
    c: "file_s s (section @ ''.txt'') = Some content" by blast
  show ?thesis
  proof (cases "read_backup E ?s1 p")
    case None
    then show ?thesis by (simp add: Some restoreFromBackup_def backupSection_keeps_files)
  next
    case (Some c')
    from read_backup_artifact [OF \<open>snd (backupSection E C section False s) = Some p\<close> c Some]
    have c': "c' = content" .
    have "file_s (fst (restoreSectionBackup E section content True ?s1)) = file_s ?s1"
      by (rule restoreSectionBackup_same) (simp add: backupSection_keeps_files c)
    with Some c' np show ?thesis
      by (simp add: \<open>snd (backupSection E C section False s) = Some p\<close> restoreFromBackup_def
            backupSection_keeps_files)
  qed
qed

text \<open>
  C1: a section backup followed by its restore with \<open>overwrite = true\<close> leaves the log
  of the section as it was. It does so whenever the name of the artifact does not begin
  with the prefix of the full backups (\<open>backupSection_restore_section\<close>). When the name
  does, as for the section \<open>full-backup\<close>, \<open>restoreFromBackup\<close> takes the artifact for a
  full backup: when the artifact is there and can be read, and the text of the log is a
  JSON document, the restore is \<open>restoreFullBackup\<close> of the parsed log, which writes
  the sections that document names instead of the log.
\<close>

theorem backupSection_restore_full_prefix:
  assumes "snd (backupSection E C section False s) = Some p"
    and "startsWith p (fullBackupPrefix C)"
    and "file_s s (section @ ''.txt'') = Some content"
    and "JSON_parse_backup E content = Some d"
    and "read_backup E (fst (backupSection E C section False s)) p \<noteq> None"
  shows "restoreFromBackup E C (Some p) (Some section) True
           (fst (backupSection E C section False s))
         = restoreFullBackup E d True (fst (backupSection E C section False s))"
proof -
  let ?s1 = "fst (backupSection E C section False s)"
  from assms(5) obtain c where c: "read_backup E ?s1 p = Some c" by blast
  from read_backup_artifact [OF assms(1) assms(3) c] have cc: "c = content" .
  from c have "file_b ?s1 p \<noteq> None"
    by (cases "file_b ?s1 p")
       (auto simp: read_backup_def readFileSync_b_def split: if_splits)
  then have "existsSync_b ?s1 p" by (simp add: existsSync_b_def)
  with c cc assms(2,4) show ?thesis by (simp add: restoreFromBackup_def)
qed

theorem backupSection_restore_full_prefix_witness:
  "file_s payload_fs ''full-backup.txt'' = Some payload_log
   \<and> snd (backupSection sample_env backupConfig ''full-backup'' False payload_fs)
       = Some ''full-backup-2026-11-02T20-44-00-000Z.bak.gz''
   \<and> snd (restoreFromBackup sample_env backupConfig
             (Some ''full-backup-2026-11-02T20-44-00-000Z.bak.gz'') (Some ''full-backup'') True
             (fst (backupSection sample_env backupConfig ''full-backup'' False payload_fs)))
       = True
   \<and> file_s (fst (restoreFromBackup sample_env backupConfig
                     (Some ''full-backup-2026-11-02T20-44-00-000Z.bak.gz'') (Some ''full-backup'')
                     True
                     (fst (backupSection sample_env backupConfig ''full-backup'' False payload_fs))))
        ''full-backup.txt''
       = Some ''x''"
proof -
  let ?p = "''full-backup-2026-11-02T20-44-00-000Z.bak.gz''"
  let ?s1 = "fst (backupSection sample_env backupConfig ''full-backup'' False payload_fs)"
  have 1: "snd (backupSection sample_env backupConfig ''full-backup'' False payload_fs) = Some ?p"
    by (simp add: backupSection_def Let_def case_prod_beta existsSync_s_def file_s_def
          payload_fs_def readFileSync_s_def sample_env_def writeFileSync_b_def new_Date_def
          backupConfig_def timestamp_of_def sample_toISOString_def decimal.simps)
  have 2: "startsWith ?p (fullBackupPrefix backupConfig)"
    by (simp add: startsWith_def backupConfig_def)
  have 3: "file_s payload_fs (''full-backup'' @ ''.txt'') = Some payload_log"
    by (simp add: file_s_def payload_fs_def)
  have 4: "JSON_parse_backup sample_env payload_log = Some payload_data"
    by (simp add: sample_env_def sample_JSON_parse_backup_def)
  have h: "CHR ''-'' \<in> set ''full-backup''" by simp
  from backupSection_Some [OF 1] obtain content s2 s3 where
    w: "writeFileSync_b sample_env ?p
          (if useCompression backupConfig then Gz content else Text content)
          (snd (new_Date sample_env payload_fs)) = Some s2"
    and r: "(if False then writeFileSync_s sample_env (''full-backup'' @ ''.txt'') [] s2
             else Some s2) = Some s3"
    and f: "?s1 = cleanupOldBackups sample_env backupConfig ''full-backup''
                 (console_log
                    (Out ((if useCompression backupConfig then ''compressed backup created: ''
                           else ''backup created: '') @ ?p)) s3)"
    by blast
  have "file_b ?s1 ?p = file_b s2 ?p"
    unfolding f using r cleanupOldBackups_nothing_matches(4) [OF hyphen_filter_empty [OF h]]
    by simp
  then have e: "file_b ?s1 ?p \<noteq> None"
    using writeFileSync_b_Some(1) [OF w] by simp
  have nf: "\<not> faulty sample_env (ReadFile BackupDir ?p)"
    and nw: "\<not> faulty sample_env (WriteFile SectionsDir ''full-backup.txt'')"
    and sl: "slot sample_env = (\<lambda>names name. length names)"
    by (simp_all add: sample_env_def)
  have 5: "read_backup sample_env ?s1 ?p \<noteq> None"
  proof -
    from e obtain bf where bf: "file_b ?s1 ?p = Some bf" by blast
    from backupSection_artifact(1) [OF 1] 3 bf have "b_data bf = Gz payload_log"
      by (simp add: backupConfig_def)
    with bf nf show ?thesis by (simp add: read_backup_def readFileSync_b_def endsWith_def)
  qed
  have s: "sectionsDir ?s1 = Some [(''full-backup.txt'', payload_log)]"
    by (simp add: backupSection_keeps_sections payload_fs_def)
  have 6: "snd (restoreFullBackup sample_env payload_data True ?s1) = True"
    "file_s (fst (restoreFullBackup sample_env payload_data True ?s1)) ''full-backup.txt''
       = Some ''x''"
    by (simp_all add: restoreFullBackup_def payload_data_def s writeFileSync_s_def
          nw sl file_s_def put_def console_log_def Let_def)
  from backupSection_restore_full_prefix [OF 1 2 3 4 5] 1 3 6 show ?thesis by simp
qed

section \<open>A full backup and its restore\<close>





lemma getSections_b_state [simp]:
  "sectionsDir (fst (getSections_b E s)) = sectionsDir s"
  "backupDir (fst (getSections_b E s)) = backupDir s"
  "ticks (fst (getSections_b E s)) = ticks s"
  "effects (fst (getSections_b E s)) = effects s"
  "file_s (fst (getSections_b E s)) = file_s s"
  "file_b (fst (getSections_b E s)) = file_b s"
  by (auto simp: getSections_b_def split: option.splits)


lemma build_backupData_state [simp]:
  "sectionsDir (fst (build_backupData E s)) = sectionsDir s"
  "backupDir (fst (build_backupData E s)) = backupDir s"
  "effects (fst (build_backupData E s)) = effects s"
  "file_s (fst (build_backupData E s)) = file_s s"
  "file_b (fst (build_backupData E s)) = file_b s"
  by (simp_all add: build_backupData_def case_prod_beta Let_def split: option.splits)




lemma cleanupOldFullBackups_keeps_sections [simp]:
  "sectionsDir (cleanupOldFullBackups E C s) = sectionsDir s"
  using cleanupOldFullBackups_only_unlinks [of s E C] by (simp add: only_unlinks_def)














end
